theory Spec2Isabelle
  imports Complex_Main "HOL-Library.Multiset"
begin

section \<open>Python values and builtins used by bot.py\<close>

text \<open>
  Conventions of the embedding.
  \<^item> A \<open>char\<close> is one code point below 256, a \<open>string\<close> a Python \<open>str\<close> over these.
  \<^item> Python's \<open>float\<close> is an IEEE binary64 number: a finite one is the \<open>real\<close> it
    denotes (the two zeros are one), the three non-finite ones are values of their own.
    \<open>float()\<close> and the arithmetic of \<open>check_run\<close> round to nearest, ties to even, with
    gradual underflow and overflow to infinity (\<open>round_double\<close>). Python's \<open>int\<close> is
    \<open>int\<close>.
  \<^item> An exception is a value of \<open>error\<close>; a function that can raise returns
    \<open>error + 'a\<close>; a function whose effects before the exception stay visible returns
    \<open>error option \<times> state\<close>.
\<close>

datatype error =
    FetchError string
  | AttributeError
  | TypeError
  | ValueError
  | KeyError
  | ZeroDivisionError
  | IndexError
  | DatatypeMismatch
  | NotNullConstraint
  | BindingError
  | OverflowError

datatype pyfloat = Finite real | PosInf | NegInf | NaN

subsection \<open>Binary64 rounding and arithmetic\<close>

text \<open>The exponent \<open>e\<close> of a positive \<open>x\<close>, with \<open>2^e \<le> x < 2^(e+1)\<close>, kept between
  \<open>-1022\<close> (the subnormal numbers) and \<open>1024\<close> (beyond the largest number): found by
  halving or doubling \<open>x\<close>.\<close>

function halvings :: "real \<Rightarrow> nat \<Rightarrow> nat" where
  "halvings x h = (if 2 \<le> x \<and> h < 1024 then halvings (x / 2) (Suc h) else h)"
  by pat_completeness auto
termination
  by (relation "measure (\<lambda>(x, h). 1024 - h)") auto

declare halvings.simps [simp del]

function doublings :: "real \<Rightarrow> nat \<Rightarrow> nat" where
  "doublings x d = (if x < 1 \<and> d < 1022 then doublings (x * 2) (Suc d) else d)"
  by pat_completeness auto
termination
  by (relation "measure (\<lambda>(x, d). 1022 - d)") auto

declare doublings.simps [simp del]

definition binade :: "real \<Rightarrow> int" where
  "binade x = (if 1 \<le> x then int (halvings x 0) else - int (doublings x 0))"

definition pow2 :: "int \<Rightarrow> real" where
  "pow2 i = (if 0 \<le> i then 2 ^ nat i else 1 / 2 ^ nat (- i))"

text \<open>The nearest integer, the even one of two that are equally near.\<close>

definition round_even :: "real \<Rightarrow> int" where
  "round_even q =
     (if q - of_int \<lfloor>q\<rfloor> < 1 / 2 then \<lfloor>q\<rfloor>
      else if 1 / 2 < q - of_int \<lfloor>q\<rfloor> then \<lfloor>q\<rfloor> + 1
      else if even \<lfloor>q\<rfloor> then \<lfloor>q\<rfloor> else \<lfloor>q\<rfloor> + 1)"

text \<open>The binary64 number nearest to \<open>x\<close>: a multiple of \<open>2^(e-52)\<close> with 53 bits, or an
  infinity when the rounded magnitude reaches \<open>2^1024\<close>.\<close>

definition round_double :: "real \<Rightarrow> pyfloat" where
  "round_double x =
     (if x = 0 then Finite 0
      else (let u = pow2 (binade \<bar>x\<bar> - 52);
                y = of_int (round_even (x / u)) * u
            in if 2 ^ 1024 \<le> \<bar>y\<bar> then (if 0 < x then PosInf else NegInf) else Finite y))"

text \<open>\<open>a - b\<close> for finite floats, \<open>x / b\<close> for a finite \<open>b\<close> that is not 0, \<open>x * c\<close> for a
  finite \<open>c\<close> above 0, and \<open>x >= y\<close>.\<close>

definition float_sub :: "real \<Rightarrow> real \<Rightarrow> pyfloat" where
  "float_sub a b = round_double (a - b)"

fun float_div :: "pyfloat \<Rightarrow> real \<Rightarrow> pyfloat" where
  "float_div (Finite x) b = round_double (x / b)"
| "float_div PosInf b = (if 0 < b then PosInf else NegInf)"
| "float_div NegInf b = (if 0 < b then NegInf else PosInf)"
| "float_div NaN b = NaN"

fun float_mul :: "pyfloat \<Rightarrow> real \<Rightarrow> pyfloat" where
  "float_mul (Finite x) c = round_double (x * c)"
| "float_mul f c = f"

fun float_ge :: "pyfloat \<Rightarrow> pyfloat \<Rightarrow> bool" where
  "float_ge NaN y = False"
| "float_ge x NaN = False"
| "float_ge PosInf y = True"
| "float_ge x NegInf = True"
| "float_ge NegInf y = False"
| "float_ge x PosInf = False"
| "float_ge (Finite x) (Finite y) = (y \<le> x)"

text \<open>\<open>float(n)\<close> for an \<open>int\<close>, as \<open>:.2f\<close> and SQLite's REAL affinity convert one.\<close>

definition float_of_int :: "int \<Rightarrow> error + real" where
  "float_of_int n = (case round_double (of_int n) of Finite y \<Rightarrow> Inr y | _ \<Rightarrow> Inl OverflowError)"

subsection \<open>str.strip, int(), float(), str()\<close>

definition py_isspace :: "char \<Rightarrow> bool" where
  "py_isspace c = (of_char c \<in> {9, 10, 11, 12, 13, 28, 29, 30, 31, 32, 133, 160 :: nat})"

definition strip :: "string \<Rightarrow> string" where
  "strip s = rev (dropWhile py_isspace (rev (dropWhile py_isspace s)))"

definition is_digit :: "char \<Rightarrow> bool" where
  "is_digit c = (48 \<le> (of_char c :: nat) \<and> (of_char c :: nat) \<le> 57)"

definition digit_val :: "char \<Rightarrow> nat" where
  "digit_val c = of_char c - 48"

definition digit_char :: "nat \<Rightarrow> char" where
  "digit_char d = char_of (48 + d)"

text \<open>The rest of a digit part after a digit: digits, each optionally preceded by one
  underscore (\<open>digitpart ::= digit (["_"] digit)*\<close>).\<close>

fun digits_tail :: "string \<Rightarrow> nat list option" where
  "digits_tail [] = Some []"
| "digits_tail [c] = (if is_digit c then Some [digit_val c] else None)"
| "digits_tail (c # d # ds) =
     (if is_digit c then map_option ((#) (digit_val c)) (digits_tail (d # ds))
      else if c = CHR ''_'' \<and> is_digit d then map_option ((#) (digit_val d)) (digits_tail ds)
      else None)"

definition digitpart :: "string \<Rightarrow> nat list option" where
  "digitpart s =
     (case s of
        [] \<Rightarrow> None
      | c # cs \<Rightarrow> if is_digit c then map_option ((#) (digit_val c)) (digits_tail cs) else None)"

definition decimal :: "nat list \<Rightarrow> nat" where
  "decimal ds = foldl (\<lambda>a d. 10 * a + d) 0 ds"

definition unsign :: "string \<Rightarrow> bool \<times> string" where
  "unsign s =
     (case s of
        [] \<Rightarrow> (False, [])
      | c # cs \<Rightarrow> if c = CHR ''-'' then (True, cs)
                  else if c = CHR ''+'' then (False, cs)
                  else (False, s))"

definition py_int :: "string \<Rightarrow> error + int" where
  "py_int s =
     (case unsign (strip s) of
        (neg, t) \<Rightarrow>
          (case digitpart t of
             None \<Rightarrow> Inl ValueError
           | Some ds \<Rightarrow> Inr (if neg then - int (decimal ds) else int (decimal ds))))"

function nat_digits :: "nat \<Rightarrow> string" where
  "nat_digits n =
     (if n < 10 then [digit_char n] else nat_digits (n div 10) @ [digit_char (n mod 10)])"
  by pat_completeness auto
termination
  by (relation "measure id") auto

declare nat_digits.simps [simp del]

definition py_str_int :: "int \<Rightarrow> string" where
  "py_str_int i = (if i < 0 then CHR ''-'' # nat_digits (nat (- i)) else nat_digits (nat i))"

definition lower :: "char \<Rightarrow> char" where
  "lower c = (if 65 \<le> (of_char c :: nat) \<and> (of_char c :: nat) \<le> 90
              then char_of (of_char c + (32 :: nat)) else c)"

text \<open>The mantissa \<open>[digitpart] "." digitpart | digitpart ["."]\<close>: its integer digits
  and its fraction digits.\<close>

definition mantissa :: "string \<Rightarrow> (nat list \<times> nat list) option" where
  "mantissa m =
     (let a = takeWhile (\<lambda>c. c \<noteq> CHR ''.'') m;
          r = dropWhile (\<lambda>c. c \<noteq> CHR ''.'') m
      in if r = [] then map_option (\<lambda>ds. (ds, [])) (digitpart a)
         else if a = [] then map_option (\<lambda>fs. ([], fs)) (digitpart (tl r))
         else if tl r = [] then map_option (\<lambda>ds. (ds, [])) (digitpart a)
         else (case (digitpart a, digitpart (tl r)) of
                 (Some ds, Some fs) \<Rightarrow> Some (ds, fs)
               | _ \<Rightarrow> None))"

definition exponent :: "string \<Rightarrow> int option" where
  "exponent x =
     (case unsign x of
        (neg, t) \<Rightarrow> map_option (\<lambda>ds. if neg then - int (decimal ds) else int (decimal ds))
                      (digitpart t))"

definition scale10 :: "real \<Rightarrow> int \<Rightarrow> real" where
  "scale10 x e = (if 0 \<le> e then x * 10 ^ nat e else x / 10 ^ nat (- e))"

definition floatnumber :: "string \<Rightarrow> real option" where
  "floatnumber u =
     (let m = takeWhile (\<lambda>c. c \<noteq> CHR ''e'' \<and> c \<noteq> CHR ''E'') u;
          r = dropWhile (\<lambda>c. c \<noteq> CHR ''e'' \<and> c \<noteq> CHR ''E'') u
      in case mantissa m of
           None \<Rightarrow> None
         | Some (ds, fs) \<Rightarrow>
             (let v = real (decimal ds) + real (decimal fs) / 10 ^ length fs
              in if r = [] then Some v
                 else map_option (scale10 v) (exponent (tl r))))"

definition py_float :: "string \<Rightarrow> error + pyfloat" where
  "py_float s =
     (case unsign (strip s) of
        (neg, u) \<Rightarrow>
          if map lower u = ''inf'' \<or> map lower u = ''infinity''
          then Inr (if neg then NegInf else PosInf)
          else if map lower u = ''nan'' then Inr NaN
          else (case floatnumber u of
                  None \<Rightarrow> Inl ValueError
                | Some v \<Rightarrow> Inr (round_double (if neg then - v else v))))"

text \<open>\<open>x or d\<close> for an optional float \<open>x\<close>: \<open>None\<close> and zero are falsy.\<close>

definition py_or :: "pyfloat option \<Rightarrow> real \<Rightarrow> pyfloat" where
  "py_or x d = (case x of None \<Rightarrow> Finite d | Some f \<Rightarrow> if f = Finite 0 then Finite d else f)"

text \<open>\<open>n < f\<close> for an \<open>int\<close> \<open>n\<close> and a float \<open>f\<close>.\<close>

fun lt_float :: "real \<Rightarrow> pyfloat \<Rightarrow> bool" where
  "lt_float x (Finite t) = (x < t)"
| "lt_float x PosInf = True"
| "lt_float x NegInf = False"
| "lt_float x NaN = False"

subsection \<open>Parsed JSON\<close>

text \<open>What \<open>response.json()\<close> returns. \<open>JNull\<close> is Python's \<open>None\<close>; \<open>JInt\<close> is a number
  read as \<open>int\<close>, \<open>JNum\<close> a number read as a finite \<open>float\<close>; \<open>JObj kvs\<close> is the \<open>dict\<close>
  whose lookup is \<open>map_of kvs\<close>.\<close>

datatype json =
    JNull
  | JBool bool
  | JInt int
  | JNum real
  | JStr string
  | JArr "json list"
  | JObj "(string \<times> json) list"

fun truthy :: "json \<Rightarrow> bool" where
  "truthy JNull = False"
| "truthy (JBool b) = b"
| "truthy (JInt n) = (n \<noteq> 0)"
| "truthy (JNum x) = (x \<noteq> 0)"
| "truthy (JStr s) = (s \<noteq> [])"
| "truthy (JArr xs) = (xs \<noteq> [])"
| "truthy (JObj kvs) = (kvs \<noteq> [])"

text \<open>\<open>x.get(key, default)\<close>: only a \<open>dict\<close> has the method.\<close>

fun py_get_default :: "json \<Rightarrow> string \<Rightarrow> json \<Rightarrow> error + json" where
  "py_get_default (JObj kvs) key d = Inr (case map_of kvs key of None \<Rightarrow> d | Some v \<Rightarrow> v)"
| "py_get_default x key d = Inl AttributeError"

definition py_get :: "json \<Rightarrow> string \<Rightarrow> error + json" where
  "py_get x key = py_get_default x key JNull"

fun starts_with :: "string \<Rightarrow> string \<Rightarrow> bool" where
  "starts_with [] ys = True"
| "starts_with (x # xs) [] = False"
| "starts_with (x # xs) (y # ys) = (x = y \<and> starts_with xs ys)"

fun contains :: "string \<Rightarrow> string \<Rightarrow> bool" where
  "contains xs [] = (xs = [])"
| "contains xs (y # ys) = (starts_with xs (y # ys) \<or> contains xs ys)"

text \<open>\<open>key in x\<close> for a string \<open>key\<close>.\<close>

fun py_in :: "string \<Rightarrow> json \<Rightarrow> error + bool" where
  "py_in key (JObj kvs) = Inr (map_of kvs key \<noteq> None)"
| "py_in key (JArr xs) = Inr (JStr key \<in> set xs)"
| "py_in key (JStr s) = Inr (contains key s)"
| "py_in key x = Inl TypeError"

text \<open>\<open>x[key]\<close> for a string \<open>key\<close>.\<close>

fun py_getitem :: "json \<Rightarrow> string \<Rightarrow> error + json" where
  "py_getitem (JObj kvs) key = (case map_of kvs key of None \<Rightarrow> Inl KeyError | Some v \<Rightarrow> Inr v)"
| "py_getitem x key = Inl TypeError"

text \<open>The numeric value of a JSON value that \<open>>=\<close> compares with a float: a number, or
  a \<open>bool\<close> as 0 or 1. Python compares an \<open>int\<close> with a float exactly.\<close>

fun py_number :: "json \<Rightarrow> error + real" where
  "py_number (JNum x) = Inr x"
| "py_number (JInt n) = Inr (of_int n)"
| "py_number (JBool b) = Inr (if b then 1 else 0)"
| "py_number x = Inl TypeError"

text \<open>The number that \<open>:.2f\<close> prints for a value that \<open>>=\<close> has compared: an \<open>int\<close> is
  converted to a float first.\<close>

fun format_2f :: "json \<Rightarrow> error + real" where
  "format_2f (JNum x) = Inr x"
| "format_2f (JInt n) = float_of_int n"
| "format_2f (JBool b) = Inr (if b then 1 else 0)"
| "format_2f x = Inl TypeError"

text \<open>\<open>for item in x\<close>.\<close>

fun py_iter :: "json \<Rightarrow> error + json list" where
  "py_iter (JArr xs) = Inr xs"
| "py_iter (JObj kvs) = Inr (map JStr (remdups (map fst kvs)))"
| "py_iter (JStr s) = Inr (map (\<lambda>c. JStr [c]) s)"
| "py_iter x = Inl TypeError"

section \<open>The database, the notifier and the environment\<close>

text \<open>A value stored in the column \<open>price REAL NOT NULL\<close>: a number, or a text that
  does not look like a number and is stored as it is.\<close>

datatype cell = CReal real | CText string

record coin_row =
  coin_rowid :: nat
  coin_id :: string
  threshold :: real

record price_row =
  ph_coin_id :: string
  ph_timestamp :: nat
  ph_price :: cell

text \<open>The texts sent through \<open>bot.send_message\<close> and written to the log, by their
  content.\<close>

datatype message =
    CoinAdded string real
  | CoinRemoved string
  | ThresholdAlert string real
  | RunAlert string pyfloat real
  | FetchFailed error
  | NewsItem json json

datatype log_entry =
    NotificationSent message
  | NotificationFailed message
  | CoinAddedLog string real
  | CoinRemovedLog string
  | ConfigUpdated string string
  | PriceLogError error
  | NoCoins
  | NoCoinsNews
  | PriceIncrease string real
  | RunDetected string pyfloat
  | RunError string error
  | PriceFetchError error
  | NewsFetchError error
  | NewsSent nat

text \<open>
  The tables of \<open>coins.db\<close> (rows in rowid order; \<open>coins_seq\<close> is the AUTOINCREMENT
  counter of \<open>coins\<close>), every call of \<open>bot.send_message\<close> with whether it returned
  (\<open>outbox\<close>), the log file, and the sleeps of the monitor task.
\<close>

record state =
  coins :: "coin_row list"
  coins_seq :: nat
  price_history :: "price_row list"
  config :: "(string \<times> string) list"
  outbox :: "(message \<times> bool) list"
  log :: "log_entry list"
  sleeps :: "int list"

text \<open>
  What the program does not decide: whether the \<open>n\<close>-th call of \<open>bot.send_message\<close>
  returns or raises, the \<open>CURRENT_TIMESTAMP\<close> (in seconds) at which the \<open>n\<close>-th row of
  \<open>price_history\<close> is inserted, the number SQLite's REAL affinity gives a text (or none),
  what the price request and the news request of the \<open>n\<close>-th cycle give (the parsed body,
  or the exception raised by \<open>session.get\<close> or \<open>response.json\<close>), and \<open>CHECK_INTERVAL\<close>.
\<close>

record env =
  bot_ok :: "nat \<Rightarrow> bool"
  stamp :: "nat \<Rightarrow> nat"
  real_affinity :: "string \<Rightarrow> real option"
  price_feed :: "nat \<Rightarrow> error + json"
  news_feed :: "nat \<Rightarrow> error + json"
  check_interval :: int

definition empty_db :: state where
  "empty_db = \<lparr>coins = [], coins_seq = 0, price_history = [], config = [],
               outbox = [], log = [], sleeps = []\<rparr>"

text \<open>\<open>INSERT OR IGNORE INTO config\<close>: \<open>key\<close> is the primary key.\<close>

definition insert_or_ignore :: "string \<Rightarrow> string \<Rightarrow> (string \<times> string) list \<Rightarrow> (string \<times> string) list" where
  "insert_or_ignore key v rows = (if map_of rows key = None then rows @ [(key, v)] else rows)"

definition init_db :: "state \<Rightarrow> state" where
  "init_db s =
     s\<lparr>config := insert_or_ignore ''RUN_CONSECUTIVE_PERIODS'' ''5''
                    (insert_or_ignore ''RUN_THRESHOLD_PERCENT'' ''10'' (config s))\<rparr>"

subsection \<open>NotificationManager and NewsManager\<close>

definition send_notification :: "env \<Rightarrow> message \<Rightarrow> state \<Rightarrow> state" where
  "send_notification e m s =
     (if bot_ok e (length (outbox s))
      then s\<lparr>outbox := outbox s @ [(m, True)], log := log s @ [NotificationSent m]\<rparr>
      else s\<lparr>outbox := outbox s @ [(m, False)], log := log s @ [NotificationFailed m]\<rparr>)"

definition fetch_latest_news :: "error + json \<Rightarrow> state \<Rightarrow> json \<times> state" where
  "fetch_latest_news feed s =
     (case feed of
        Inl err \<Rightarrow> (JArr [], s\<lparr>log := log s @ [NewsFetchError err]\<rparr>)
      | Inr data \<Rightarrow>
          (case py_get_default data ''results'' (JArr []) of
             Inl err \<Rightarrow> (JArr [], s\<lparr>log := log s @ [NewsFetchError err]\<rparr>)
           | Inr r \<Rightarrow> (r, s)))"

text \<open>The text built from one news item, \<open>item.get('title')\<close> and \<open>item.get('url')\<close>.\<close>

definition news_message :: "json \<Rightarrow> error + message" where
  "news_message item =
     (case py_get item ''title'' of
        Inl err \<Rightarrow> Inl err
      | Inr title \<Rightarrow>
          (case py_get item ''url'' of
             Inl err \<Rightarrow> Inl err
           | Inr url \<Rightarrow> Inr (NewsItem title url)))"

fun send_news_loop :: "env \<Rightarrow> json list \<Rightarrow> state \<Rightarrow> error option \<times> state" where
  "send_news_loop e [] s = (None, s)"
| "send_news_loop e (item # items) s =
     (case news_message item of
        Inl err \<Rightarrow> (Some err, s)
      | Inr m \<Rightarrow> send_news_loop e items (send_notification e m s))"

definition send_news_notifications :: "env \<Rightarrow> json \<Rightarrow> state \<Rightarrow> error option \<times> state" where
  "send_news_notifications e news_items s =
     (case py_iter news_items of
        Inl err \<Rightarrow> (Some err, s)
      | Inr items \<Rightarrow> send_news_loop e items s)"

subsection \<open>CoinWatcher: the store\<close>

text \<open>\<open>INSERT OR REPLACE INTO coins\<close>: the row with this \<open>coin_id\<close> (UNIQUE) is deleted,
  the new row gets the next rowid.\<close>

text \<open>The notification of \<open>add_coin\<close> and \<open>remove_coin\<close> is a task of its own
  (\<open>asyncio.create_task\<close>), which runs after the function has written its log line.\<close>

definition add_coin :: "env \<Rightarrow> string \<Rightarrow> real \<Rightarrow> state \<Rightarrow> state" where
  "add_coin e cid thr s =
     (let s1 = s\<lparr>coins := filter (\<lambda>r. coin_id r \<noteq> cid) (coins s)
                            @ [\<lparr>coin_rowid = Suc (coins_seq s), coin_id = cid, threshold = thr\<rparr>],
                 coins_seq := Suc (coins_seq s)\<rparr>;
          s2 = s1\<lparr>log := log s1 @ [CoinAddedLog cid thr]\<rparr>
      in send_notification e (CoinAdded cid thr) s2)"

definition remove_coin :: "env \<Rightarrow> string \<Rightarrow> state \<Rightarrow> state" where
  "remove_coin e cid s =
     (let s1 = s\<lparr>coins := filter (\<lambda>r. coin_id r \<noteq> cid) (coins s)\<rparr>;
          s2 = s1\<lparr>log := log s1 @ [CoinRemovedLog cid]\<rparr>
      in send_notification e (CoinRemoved cid) s2)"

definition get_coins :: "state \<Rightarrow> (string \<times> real) list" where
  "get_coins s = map (\<lambda>r. (coin_id r, threshold r)) (coins s)"

text \<open>Binding a Python value to the parameter of \<open>price REAL NOT NULL\<close>. An \<open>int\<close> must
  fit 64 bits and is stored as the float nearest to it.\<close>

fun bind_price :: "env \<Rightarrow> json \<Rightarrow> error + cell" where
  "bind_price e (JNum x) = Inr (CReal x)"
| "bind_price e (JInt n) =
     (if - (2 ^ 63) \<le> n \<and> n < 2 ^ 63
      then (case float_of_int n of Inl err \<Rightarrow> Inl err | Inr y \<Rightarrow> Inr (CReal y))
      else Inl OverflowError)"
| "bind_price e (JBool b) = Inr (CReal (if b then 1 else 0))"
| "bind_price e (JStr t) = Inr (case real_affinity e t of None \<Rightarrow> CText t | Some x \<Rightarrow> CReal x)"
| "bind_price e JNull = Inl NotNullConstraint"
| "bind_price e x = Inl BindingError"

definition log_price :: "env \<Rightarrow> string \<Rightarrow> json \<Rightarrow> state \<Rightarrow> state" where
  "log_price e cid price s =
     (case bind_price e price of
        Inl err \<Rightarrow> s\<lparr>log := log s @ [PriceLogError err]\<rparr>
      | Inr c \<Rightarrow>
          s\<lparr>price_history := price_history s
             @ [\<lparr>ph_coin_id = cid, ph_timestamp = stamp e (length (price_history s)),
                 ph_price = c\<rparr>]\<rparr>)"

definition get_config :: "state \<Rightarrow> string \<Rightarrow> error + pyfloat option" where
  "get_config s key =
     (case map_of (config s) key of
        None \<Rightarrow> Inr None
      | Some v \<Rightarrow> (case py_float v of Inl err \<Rightarrow> Inl err | Inr f \<Rightarrow> Inr (Some f)))"

text \<open>\<open>UPDATE config SET value = ? WHERE key = ?\<close>: a key with no row stays without.\<close>

definition set_config :: "string \<Rightarrow> string \<Rightarrow> state \<Rightarrow> state" where
  "set_config key v s =
     s\<lparr>config := map (\<lambda>(k, old). if k = key then (k, v) else (k, old)) (config s),
       log := log s @ [ConfigUpdated key v]\<rparr>"

subsection \<open>CoinWatcher.check\_run\<close>

text \<open>The parameter of \<open>LIMIT ?\<close> must convert to a 64-bit integer without loss, or the
  query fails with "datatype mismatch".\<close>

fun sql_limit :: "pyfloat \<Rightarrow> error + int" where
  "sql_limit (Finite x) =
     (if x = of_int \<lfloor>x\<rfloor> \<and> - (2 ^ 63) < x \<and> x < 2 ^ 63 then Inr \<lfloor>x\<rfloor> else Inl DatatypeMismatch)"
| "sql_limit f = Inl DatatypeMismatch"

text \<open>\<open>SELECT price FROM price_history WHERE coin_id = ? ORDER BY timestamp DESC LIMIT ?\<close>.
  Rows with the same timestamp come in rowid order; a negative limit is no limit.\<close>

definition recent_rows :: "state \<Rightarrow> string \<Rightarrow> int \<Rightarrow> price_row list" where
  "recent_rows s cid n =
     (let rows = sort_key (\<lambda>r. - int (ph_timestamp r))
                   (filter (\<lambda>r. ph_coin_id r = cid) (price_history s))
      in if n < 0 then rows else take (nat n) rows)"

definition recent_prices :: "state \<Rightarrow> string \<Rightarrow> int \<Rightarrow> cell list" where
  "recent_prices s cid n = map ph_price (recent_rows s cid n)"

fun str_lt :: "string \<Rightarrow> string \<Rightarrow> bool" where
  "str_lt [] [] = False"
| "str_lt [] (y # ys) = True"
| "str_lt (x # xs) [] = False"
| "str_lt (x # xs) (y # ys) = ((of_char x :: nat) < of_char y \<or> (x = y \<and> str_lt xs ys))"

text \<open>\<open>x < y\<close> on values read from the price column.\<close>

fun cell_lt :: "cell \<Rightarrow> cell \<Rightarrow> error + bool" where
  "cell_lt (CReal x) (CReal y) = Inr (x < y)"
| "cell_lt (CText x) (CText y) = Inr (str_lt x y)"
| "cell_lt x y = Inl TypeError"

text \<open>\<open>all(x < y for x, y in pairs)\<close>: stops at the first pair that is not increasing.\<close>

fun all_lt :: "(cell \<times> cell) list \<Rightarrow> error + bool" where
  "all_lt [] = Inr True"
| "all_lt ((x, y) # ps) =
     (case cell_lt x y of
        Inl err \<Rightarrow> Inl err
      | Inr b \<Rightarrow> if b then all_lt ps else Inr False)"

text \<open>\<open>(a - b) / b * 100\<close> for finite floats \<open>a\<close> and \<open>b\<close>, \<open>b\<close> not 0: each of the three
  operations rounds.\<close>

definition percent_change :: "real \<Rightarrow> real \<Rightarrow> pyfloat" where
  "percent_change a b = float_mul (float_div (float_sub a b) b) 100"

text \<open>\<open>(prices[0] - prices[-1]) / prices[-1] * 100\<close>.\<close>

definition total_change :: "cell list \<Rightarrow> error + pyfloat" where
  "total_change prices =
     (case prices of
        [] \<Rightarrow> Inl IndexError
      | p # ps \<Rightarrow>
          (case (p, last prices) of
             (CReal a, CReal b) \<Rightarrow>
               if b = 0 then Inl ZeroDivisionError else Inr (percent_change a b)
           | _ \<Rightarrow> Inl TypeError))"

text \<open>The body of the \<open>try\<close> of \<open>check_run\<close>; its only effects are the last two
  statements, so an exception leaves the state as it was.\<close>

definition check_run_try :: "env \<Rightarrow> string \<Rightarrow> state \<Rightarrow> error + state" where
  "check_run_try e cid s =
     (case get_config s ''RUN_CONSECUTIVE_PERIODS'' of
        Inl err \<Rightarrow> Inl err
      | Inr kc \<Rightarrow>
     (case get_config s ''RUN_THRESHOLD_PERCENT'' of
        Inl err \<Rightarrow> Inl err
      | Inr tc \<Rightarrow>
     (let run_consecutive_periods = py_or kc 5;
          run_threshold_percent = py_or tc 10
      in case sql_limit run_consecutive_periods of
           Inl err \<Rightarrow> Inl err
         | Inr n \<Rightarrow>
     (let prices = recent_prices s cid n
      in if lt_float (real (length prices)) run_consecutive_periods then Inr s
         else (case all_lt (zip (rev prices) (tl (rev prices))) of
                 Inl err \<Rightarrow> Inl err
               | Inr is_run \<Rightarrow>
                   if is_run
                   then (case total_change prices of
                           Inl err \<Rightarrow> Inl err
                         | Inr change \<Rightarrow>
                             if float_ge change run_threshold_percent
                             then (let s1 = send_notification e
                                              (RunAlert cid change (real_of_int n)) s
                                   in Inr (s1\<lparr>log := log s1 @ [RunDetected cid change]\<rparr>))
                             else Inr s)
                   else Inr s)))))"

definition check_run :: "env \<Rightarrow> string \<Rightarrow> state \<Rightarrow> state" where
  "check_run e cid s =
     (case check_run_try e cid s of
        Inl err \<Rightarrow> s\<lparr>log := log s @ [RunError cid err]\<rparr>
      | Inr s' \<Rightarrow> s')"

subsection \<open>CoinWatcher: the monitor cycle\<close>

text \<open>One round of \<open>for coin_id, threshold in coins\<close>. An exception leaves the loop;
  what the round did before stays done.\<close>

definition process_coin :: "env \<Rightarrow> json \<Rightarrow> string \<times> real \<Rightarrow> state \<Rightarrow> error option \<times> state" where
  "process_coin e response_json c s =
     (case c of (cid, thr) \<Rightarrow>
     (case py_get response_json cid of
        Inl err \<Rightarrow> (Some err, s)
      | Inr coin_data \<Rightarrow>
          if \<not> truthy coin_data then (None, s)
          else
     (case py_in ''eur_24h_change'' coin_data of
        Inl err \<Rightarrow> (Some err, s)
      | Inr present \<Rightarrow>
          if \<not> present then (None, s)
          else
     (case py_getitem coin_data ''eur_24h_change'' of
        Inl err \<Rightarrow> (Some err, s)
      | Inr price_change \<Rightarrow>
     (case py_get coin_data ''eur'' of
        Inl err \<Rightarrow> (Some err, s)
      | Inr current_price \<Rightarrow>
     (let s1 = (if truthy current_price then log_price e cid current_price s else s)
      in case py_number price_change of
           Inl err \<Rightarrow> (Some err, s1)
         | Inr change \<Rightarrow>
             if thr \<le> change
             then (case format_2f price_change of
                     Inl err \<Rightarrow> (Some err, s1)
                   | Inr shown \<Rightarrow>
                       (let s' = send_notification e (ThresholdAlert cid shown) s1
                        in (None, check_run e cid
                                    (s'\<lparr>log := log s' @ [PriceIncrease cid change]\<rparr>))))
             else (None, check_run e cid s1)))))))"

fun process_coins :: "env \<Rightarrow> json \<Rightarrow> (string \<times> real) list \<Rightarrow> state \<Rightarrow> error option \<times> state" where
  "process_coins e response_json [] s = (None, s)"
| "process_coins e response_json (c # cs) s =
     (case process_coin e response_json c s of
        (Some err, s') \<Rightarrow> (Some err, s')
      | (None, s') \<Rightarrow> process_coins e response_json cs s')"

text \<open>The body of the \<open>try\<close> of \<open>check_price_increase_async\<close>: the request, then the
  loop over the coins.\<close>

definition price_try :: "env \<Rightarrow> error + json \<Rightarrow> (string \<times> real) list \<Rightarrow> state \<Rightarrow> error option \<times> state" where
  "price_try e feed cs s =
     (case feed of
        Inl err \<Rightarrow> (Some err, s)
      | Inr response_json \<Rightarrow> process_coins e response_json cs s)"

definition check_price_increase_async :: "env \<Rightarrow> error + json \<Rightarrow> state \<Rightarrow> state" where
  "check_price_increase_async e feed s =
     (let cs = get_coins s
      in if cs = [] then s\<lparr>log := log s @ [NoCoins]\<rparr>
         else (case price_try e feed cs s of
                 (None, s') \<Rightarrow> s'
               | (Some err, s') \<Rightarrow>
                   send_notification e (FetchFailed err)
                     (s'\<lparr>log := log s' @ [PriceFetchError err]\<rparr>)))"

text \<open>\<open>len(news_items)\<close>, reached only after the loop over \<open>news_items\<close> has ended.\<close>

fun py_len :: "json \<Rightarrow> nat" where
  "py_len (JArr xs) = length xs"
| "py_len (JObj kvs) = length (remdups (map fst kvs))"
| "py_len (JStr t) = length t"
| "py_len x = 0"

definition check_news_async :: "env \<Rightarrow> error + json \<Rightarrow> state \<Rightarrow> error option \<times> state" where
  "check_news_async e feed s =
     (if get_coins s = [] then (None, s\<lparr>log := log s @ [NoCoinsNews]\<rparr>)
      else (case fetch_latest_news feed s of
              (news_items, s1) \<Rightarrow>
                if truthy news_items
                then (case send_news_notifications e news_items s1 of
                        (Some err, s2) \<Rightarrow> (Some err, s2)
                      | (None, s2) \<Rightarrow> (None, s2\<lparr>log := log s2 @ [NewsSent (py_len news_items)]\<rparr>))
                else (None, s1)))"

text \<open>One round of \<open>while True\<close> in \<open>start_watching\<close>, for the cycle number \<open>i\<close>.\<close>

definition watch_cycle :: "env \<Rightarrow> nat \<Rightarrow> state \<Rightarrow> error option \<times> state" where
  "watch_cycle e i s =
     (let s1 = check_price_increase_async e (price_feed e i) s
      in case check_news_async e (news_feed e i) s1 of
           (Some err, s2) \<Rightarrow> (Some err, s2)
         | (None, s2) \<Rightarrow> (None, s2\<lparr>sleeps := sleeps s2 @ [check_interval e]\<rparr>))"

text \<open>The loop never returns by itself; \<open>start_watching e n i s\<close> is the task after \<open>n\<close>
  rounds from the cycle number \<open>i\<close>: still running (\<open>None\<close>), or ended by an exception.\<close>

fun start_watching :: "env \<Rightarrow> nat \<Rightarrow> nat \<Rightarrow> state \<Rightarrow> error option \<times> state" where
  "start_watching e 0 i s = (None, s)"
| "start_watching e (Suc n) i s =
     (case watch_cycle e i s of
        (Some err, s') \<Rightarrow> (Some err, s')
      | (None, s') \<Rightarrow> start_watching e n (Suc i) s')"

subsection \<open>text\_handler, branch \<open>set_run_periods\<close>\<close>

datatype reply = PeriodsSet int | InvalidValue

text \<open>The branch \<open>awaiting == 'set_run_periods'\<close> of \<open>text_handler\<close>, which only an admin
  reaches: the new store and the reply.\<close>

definition set_run_periods :: "string \<Rightarrow> state \<Rightarrow> state \<times> reply" where
  "set_run_periods text s =
     (case py_int (strip text) of
        Inl err \<Rightarrow> (s, InvalidValue)
      | Inr periods \<Rightarrow>
          if periods \<le> 0 then (s, InvalidValue)
          else (set_config ''RUN_CONSECUTIVE_PERIODS'' (py_str_int periods) s,
                PeriodsSet periods))"

section \<open>Observations and scenarios\<close>

text \<open>The threshold alerts among the texts handed to the bot so far.\<close>

fun is_threshold_alert :: "message \<Rightarrow> bool" where
  "is_threshold_alert (ThresholdAlert c x) = True"
| "is_threshold_alert m = False"

definition threshold_alerts :: "state \<Rightarrow> message list" where
  "threshold_alerts s = filter is_threshold_alert (map fst (outbox s))"

text \<open>Two states that differ at most in which deliveries succeeded, and in the log.\<close>

definition same_but_delivery :: "state \<Rightarrow> state \<Rightarrow> bool" where
  "same_but_delivery s s' =
     (coins s = coins s' \<and> coins_seq s = coins_seq s' \<and> price_history s = price_history s'
      \<and> config s = config s' \<and> map fst (outbox s) = map fst (outbox s')
      \<and> sleeps s = sleeps s')"

text \<open>The value of \<open>RUN_CONSECUTIVE_PERIODS\<close> in the store is a whole number \<open>p\<close> of at
  least \<open>m\<close> periods, and \<open>get_config\<close> reads it as the float nearest to \<open>p\<close>.\<close>

definition periods_at_least :: "int \<Rightarrow> state \<Rightarrow> bool" where
  "periods_at_least m s =
     (case map_of (config s) ''RUN_CONSECUTIVE_PERIODS'' of
        None \<Rightarrow> False
      | Some v \<Rightarrow>
          (case py_int v of
             Inl err \<Rightarrow> False
           | Inr p \<Rightarrow> m \<le> p
                      \<and> get_config s ''RUN_CONSECUTIVE_PERIODS''
                          = Inr (Some (round_double (of_int p)))))"

text \<open>The diagnostics of a failed price step among the texts handed to the bot so far.\<close>

fun is_fetch_failed :: "message \<Rightarrow> bool" where
  "is_fetch_failed (FetchFailed err) = True"
| "is_fetch_failed m = False"

definition fetch_failures :: "state \<Rightarrow> message list" where
  "fetch_failures s = filter is_fetch_failed (map fst (outbox s))"

text \<open>The log line that \<open>send_notification\<close> writes for a delivery.\<close>

definition delivery_log :: "message \<times> bool \<Rightarrow> log_entry" where
  "delivery_log d = (if snd d then NotificationSent (fst d) else NotificationFailed (fst d))"

text \<open>A bot that delivers everything, a price request that times out, no news.\<close>

definition demo_env :: env where
  "demo_env = \<lparr>bot_ok = (\<lambda>n. True), stamp = (\<lambda>n. n), real_affinity = (\<lambda>t. None),
               price_feed = (\<lambda>i. Inl (FetchError ''timeout'')),
               news_feed = (\<lambda>i. Inr (JObj [(''results'', JArr [])])),
               check_interval = 3600\<rparr>"

text \<open>The same bot, with a price response that gives bitcoin a price and a null change.\<close>

definition null_change_env :: env where
  "null_change_env = \<lparr>bot_ok = (\<lambda>n. True), stamp = (\<lambda>n. n), real_affinity = (\<lambda>t. None),
               price_feed = (\<lambda>i. Inr (JObj [(''bitcoin'',
                               JObj [(''eur'', JNum 100), (''eur_24h_change'', JNull)])])),
               news_feed = (\<lambda>i. Inr (JObj [(''results'', JNull)])),
               check_interval = 3600\<rparr>"

definition sample :: "string \<Rightarrow> nat \<Rightarrow> real \<Rightarrow> price_row" where
  "sample cid ts p = \<lparr>ph_coin_id = cid, ph_timestamp = ts, ph_price = CReal p\<rparr>"

text \<open>Five prices of ether, 100 to 120, with the run threshold at 15 percent.\<close>

definition ether_run :: state where
  "ether_run = \<lparr>coins = [], coins_seq = 0,
     price_history = [sample ''ether'' 0 100, sample ''ether'' 1 105, sample ''ether'' 2 110,
                      sample ''ether'' 3 115, sample ''ether'' 4 120],
     config = [(''RUN_THRESHOLD_PERCENT'', ''15''), (''RUN_CONSECUTIVE_PERIODS'', ''5'')],
     outbox = [], log = [], sleeps = []\<rparr>"

text \<open>Three prices of ether, 100, 110 and 129, with the run threshold at 29 percent and
  3 periods: the change is 29 percent in exact arithmetic and less in binary64.\<close>

definition ether_boundary :: state where
  "ether_boundary = \<lparr>coins = [], coins_seq = 0,
     price_history = [sample ''ether'' 0 100, sample ''ether'' 1 110, sample ''ether'' 2 129],
     config = [(''RUN_THRESHOLD_PERCENT'', ''29''), (''RUN_CONSECUTIVE_PERIODS'', ''3'')],
     outbox = [], log = [], sleeps = []\<rparr>"

text \<open>The same with a first price of 0.\<close>

definition ether_from_zero :: state where
  "ether_from_zero = \<lparr>coins = [], coins_seq = 0,
     price_history = [sample ''ether'' 0 0, sample ''ether'' 1 105, sample ''ether'' 2 110,
                      sample ''ether'' 3 115, sample ''ether'' 4 120],
     config = [(''RUN_THRESHOLD_PERCENT'', ''15''), (''RUN_CONSECUTIVE_PERIODS'', ''5'')],
     outbox = [], log = [], sleeps = []\<rparr>"

text \<open>A fresh database in which bitcoin is watched with a threshold of 5 percent.\<close>

definition watching_bitcoin :: state where
  "watching_bitcoin = \<lparr>coins = [\<lparr>coin_rowid = 1, coin_id = ''bitcoin'', threshold = 5\<rparr>],
     coins_seq = 1, price_history = [],
     config = [(''RUN_THRESHOLD_PERCENT'', ''10''), (''RUN_CONSECUTIVE_PERIODS'', ''5'')],
     outbox = [], log = [], sleeps = []\<rparr>"

definition bitcoin_up :: json where
  "bitcoin_up = JObj [(''bitcoin'', JObj [(''eur'', JNum 100), (''eur_24h_change'', JNum 7.5)])]"

definition bitcoin_no_price :: json where
  "bitcoin_no_price = JObj [(''bitcoin'', JObj [(''eur_24h_change'', JNum 7.5)])]"

definition bitcoin_null_change :: json where
  "bitcoin_null_change = JObj [(''bitcoin'', JObj [(''eur'', JNum 100), (''eur_24h_change'', JNull)])]"

text \<open>A bot whose first delivery fails, and two news items.\<close>

definition flaky_env :: env where
  "flaky_env = \<lparr>bot_ok = (\<lambda>n. n \<noteq> 0), stamp = (\<lambda>n. n), real_affinity = (\<lambda>t. None),
               price_feed = (\<lambda>i. Inl (FetchError ''timeout'')),
               news_feed = (\<lambda>i. Inr (JObj [(''results'', JArr [])])),
               check_interval = 3600\<rparr>"

definition two_news :: "json list" where
  "two_news = [JObj [(''title'', JStr ''up''), (''url'', JStr ''u1'')],
               JObj [(''title'', JStr ''down'')]]"

section \<open>Frame lemmas\<close>

lemma send_notification_outbox:
  "outbox (send_notification e m s) = outbox s @ [(m, bot_ok e (length (outbox s)))]"
  by (simp add: send_notification_def)

lemma send_notification_frame:
  "coins (send_notification e m s) = coins s"
  "coins_seq (send_notification e m s) = coins_seq s"
  "price_history (send_notification e m s) = price_history s"
  "config (send_notification e m s) = config s"
  "sleeps (send_notification e m s) = sleeps s"
  by (simp_all add: send_notification_def)

lemma log_price_frame:
  "coins (log_price e cid p s) = coins s"
  "coins_seq (log_price e cid p s) = coins_seq s"
  "config (log_price e cid p s) = config s"
  "outbox (log_price e cid p s) = outbox s"
  "sleeps (log_price e cid p s) = sleeps s"
  by (simp_all add: log_price_def split: sum.splits)

lemma check_run_try_cases:
  assumes "check_run_try e cid s = Inr s'"
  shows "s' = s \<or> (\<exists>c k. s' = (send_notification e (RunAlert cid c k) s)
                    \<lparr>log := log (send_notification e (RunAlert cid c k) s) @ [RunDetected cid c]\<rparr>)"
  using assms unfolding check_run_try_def Let_def
  by (auto split: sum.splits if_splits)

lemma check_run_cases:
  "(\<exists>l. check_run e cid s = s\<lparr>log := l\<rparr>)
   \<or> (\<exists>c k. check_run e cid s = (send_notification e (RunAlert cid c k) s)
                    \<lparr>log := log (send_notification e (RunAlert cid c k) s) @ [RunDetected cid c]\<rparr>)"
proof (cases "check_run_try e cid s")
  case (Inl err)
  then show ?thesis by (auto simp: check_run_def)
next
  case (Inr s')
  from check_run_try_cases[OF Inr] show ?thesis
  proof
    assume "s' = s"
    then have "check_run e cid s = s\<lparr>log := log s\<rparr>" using Inr by (simp add: check_run_def)
    then show ?thesis by blast
  next
    assume "\<exists>c k. s' = (send_notification e (RunAlert cid c k) s)
                    \<lparr>log := log (send_notification e (RunAlert cid c k) s) @ [RunDetected cid c]\<rparr>"
    then show ?thesis using Inr by (simp add: check_run_def)
  qed
qed

lemma check_run_frame:
  "coins (check_run e cid s) = coins s"
  "coins_seq (check_run e cid s) = coins_seq s"
  "price_history (check_run e cid s) = price_history s"
  "config (check_run e cid s) = config s"
  "sleeps (check_run e cid s) = sleeps s"
  using check_run_cases[of e cid s] by (auto simp: send_notification_frame)

lemma check_run_threshold_alerts:
  "threshold_alerts (check_run e cid s) = threshold_alerts s"
  using check_run_cases[of e cid s]
  by (auto simp: threshold_alerts_def send_notification_outbox)

section \<open>The watch list\<close>

text \<open>
  C7. Adding a coin twice with the same threshold gives the watch list that adding it once
  gives, and this list has exactly one entry for the coin: the one just written.
\<close>

theorem add_coin_idempotent:
  "get_coins (add_coin e cid thr (add_coin e cid thr s)) = get_coins (add_coin e cid thr s)
   \<and> filter (\<lambda>c. fst c = cid) (get_coins (add_coin e cid thr (add_coin e cid thr s)))
       = [(cid, thr)]"
  by (simp add: get_coins_def add_coin_def Let_def send_notification_frame filter_map o_def)

section \<open>The threshold detector\<close>

text \<open>
  C5. When the response gives a coin a numeric 24h change, the round of the loop for this
  coin ends without exception and hands the bot one threshold alert for the coin if the
  threshold is at most the change (the boundary included), and none otherwise.
\<close>

theorem threshold_detector_iff:
  assumes "py_get response_json cid = Inr (JObj kvs)"
      and "map_of kvs ''eur_24h_change'' = Some (JNum change)"
  shows "fst (process_coin e response_json (cid, thr) s) = None
       \<and> threshold_alerts (snd (process_coin e response_json (cid, thr) s))
           = threshold_alerts s @ (if thr \<le> change then [ThresholdAlert cid change] else [])"
proof -
  have ne: "kvs \<noteq> []" using assms(2) by auto
  have "fst (process_coin e response_json (cid, thr) s) = None"
    using assms ne by (simp add: process_coin_def py_get_def Let_def)
  moreover have "threshold_alerts (snd (process_coin e response_json (cid, thr) s))
         = threshold_alerts s @ (if thr \<le> change then [ThresholdAlert cid change] else [])"
    using assms ne
    by (simp add: process_coin_def py_get_def Let_def check_run_threshold_alerts)
       (simp add: threshold_alerts_def send_notification_outbox log_price_frame)
  ultimately show ?thesis by simp
qed

theorem threshold_detector_iff_witness:
  "py_get bitcoin_up ''bitcoin'' = Inr (JObj [(''eur'', JNum 100), (''eur_24h_change'', JNum 7.5)])
   \<and> threshold_alerts (snd (process_coin demo_env bitcoin_up (''bitcoin'', 5) watching_bitcoin))
       = [ThresholdAlert ''bitcoin'' 7.5]
   \<and> threshold_alerts (snd (process_coin demo_env bitcoin_up (''bitcoin'', 7.5) watching_bitcoin))
       = [ThresholdAlert ''bitcoin'' 7.5]
   \<and> threshold_alerts (snd (process_coin demo_env bitcoin_up (''bitcoin'', 8) watching_bitcoin))
       = []"
  using threshold_detector_iff[of bitcoin_up "''bitcoin''"
          "[(''eur'', JNum 100), (''eur_24h_change'', JNum 7.5)]" "7.5" demo_env 5 watching_bitcoin]
        threshold_detector_iff[of bitcoin_up "''bitcoin''"
          "[(''eur'', JNum 100), (''eur_24h_change'', JNum 7.5)]" "7.5" demo_env "7.5" watching_bitcoin]
        threshold_detector_iff[of bitcoin_up "''bitcoin''"
          "[(''eur'', JNum 100), (''eur_24h_change'', JNum 7.5)]" "7.5" demo_env 8 watching_bitcoin]
  by (simp add: bitcoin_up_def py_get_def threshold_alerts_def watching_bitcoin_def)

text \<open>
  C10. When the response gives a coin a numeric 24h change and a price that is 0, null or
  missing, the round of the loop for this coin leaves the price history as it was, and it
  is the threshold comparison followed by the run detection.
\<close>

theorem falsy_price_not_recorded:
  assumes "py_get response_json cid = Inr (JObj kvs)"
      and "map_of kvs ''eur_24h_change'' = Some (JNum change)"
      and "py_get (JObj kvs) ''eur'' = Inr price"
      and "\<not> truthy price"
  shows "price_history (snd (process_coin e response_json (cid, thr) s)) = price_history s
       \<and> process_coin e response_json (cid, thr) s
           = (None, check_run e cid
                (if thr \<le> change
                 then (send_notification e (ThresholdAlert cid change) s)
                        \<lparr>log := log (send_notification e (ThresholdAlert cid change) s)
                                 @ [PriceIncrease cid change]\<rparr>
                 else s))"
proof -
  have ne: "kvs \<noteq> []" using assms(2) by auto
  have eq: "process_coin e response_json (cid, thr) s
           = (None, check_run e cid
                (if thr \<le> change
                 then (send_notification e (ThresholdAlert cid change) s)
                        \<lparr>log := log (send_notification e (ThresholdAlert cid change) s)
                                 @ [PriceIncrease cid change]\<rparr>
                 else s))"
    using assms ne by (simp add: process_coin_def Let_def)
  show ?thesis unfolding eq
    by (simp add: check_run_frame send_notification_frame)
qed

theorem falsy_price_not_recorded_witness:
  "py_get (JObj [(''eur_24h_change'', JNum 7.5)]) ''eur'' = Inr JNull \<and> \<not> truthy JNull
   \<and> price_history (snd (process_coin demo_env bitcoin_no_price (''bitcoin'', 5) watching_bitcoin))
       = []"
  using falsy_price_not_recorded[of bitcoin_no_price "''bitcoin''"
          "[(''eur_24h_change'', JNum 7.5)]" "7.5" JNull demo_env 5 watching_bitcoin]
  by (simp add: bitcoin_no_price_def py_get_def watching_bitcoin_def check_run_frame
        send_notification_frame)


section \<open>The query for the most recent samples\<close>

lemma length_recent_prices:
  "length (recent_prices s cid (int k))
     = min k (length (filter (\<lambda>r. ph_coin_id r = cid) (price_history s)))"
  by (simp add: recent_prices_def recent_rows_def Let_def min.commute)

lemma recent_rows_all_sorted:
  "sorted_wrt (\<lambda>a b. ph_timestamp b \<le> ph_timestamp a) (recent_rows s cid (- 1))"
proof -
  let ?rows = "filter (\<lambda>r. ph_coin_id r = cid) (price_history s)"
  have "sorted (map (\<lambda>r. - int (ph_timestamp r)) (sort_key (\<lambda>r. - int (ph_timestamp r)) ?rows))"
    by (rule sorted_sort_key)
  then show ?thesis
    by (simp add: recent_rows_def sorted_map)
qed

text \<open>
  C8. For a count \<open>n\<close>, the query returns the prices of the first \<open>n\<close> rows of the asset's
  samples arranged by timestamp, latest first: at most \<open>n\<close> prices, and all of them when
  fewer than \<open>n\<close> are recorded. (A negative limit, which a count is not, returns all rows.)
\<close>

theorem recent_prices_most_recent_first:
  "length (recent_prices s cid (int n))
     = min n (length (filter (\<lambda>r. ph_coin_id r = cid) (price_history s)))
   \<and> recent_prices s cid (int n) = map ph_price (take n (recent_rows s cid (- 1)))
   \<and> sorted_wrt (\<lambda>a b. ph_timestamp b \<le> ph_timestamp a) (recent_rows s cid (- 1))
   \<and> mset (recent_rows s cid (- 1)) = mset (filter (\<lambda>r. ph_coin_id r = cid) (price_history s))"
proof -
  have "recent_prices s cid (int n) = map ph_price (take n (recent_rows s cid (- 1)))"
    by (simp add: recent_prices_def recent_rows_def)
  moreover have "mset (recent_rows s cid (- 1))
                   = mset (filter (\<lambda>r. ph_coin_id r = cid) (price_history s))"
    by (simp add: recent_rows_def)
  ultimately show ?thesis
    using length_recent_prices[of s cid n] recent_rows_all_sorted[of s cid] by simp
qed

section \<open>The run detector\<close>

lemma all_lt_reals:
  "all_lt (zip (map CReal p) (tl (map CReal p))) = Inr (sorted_wrt (<) p)"
proof (induction p rule: induct_list012)
  case 1
  then show ?case by simp
next
  case (2 x)
  then show ?case by simp
next
  case (3 x y zs)
  have "sorted_wrt (<) (x # y # zs) = (x < y \<and> sorted_wrt (<) (y # zs))"
    by (rule sorted_wrt2) (simp add: transp_on_def)
  with 3 show ?case by simp
qed

lemma all_lt_same_kind:
  "all_lt (zip cs (tl cs)) = Inr True \<Longrightarrow> cs \<noteq> [] \<Longrightarrow> hd cs = CReal a
   \<Longrightarrow> \<exists>p. cs = map CReal p"
proof (induction cs arbitrary: a rule: induct_list012)
  case 1
  then show ?case by simp
next
  case (2 x)
  then have "[x] = map CReal [a]" by simp
  then show ?case by (rule exI[of _ "[a]"])
next
  case (3 x y zs)
  from 3(3,5) obtain b where y: "y = CReal b"
    by (cases y) (auto split: if_splits)
  from 3(3,5) y have "all_lt (zip (y # zs) (tl (y # zs))) = Inr True"
    by (auto split: if_splits)
  then have "\<exists>p. y # zs = map CReal p"
    by (rule 3(2)[of b]) (simp_all add: y)
  then obtain p where p: "y # zs = map CReal p" ..
  from 3(5) have "x = CReal a" by simp
  then have "x # y # zs = map CReal (a # p)" by (simp add: p[symmetric])
  then show ?case by (rule exI[of _ "a # p"])
qed

lemma total_change_reals:
  "p \<noteq> [] \<Longrightarrow> total_change (rev (map CReal p)) =
     (if hd p = 0 then Inl ZeroDivisionError else Inr (percent_change (last p) (hd p)))"
  by (cases p rule: rev_cases; cases p)
     (auto simp: total_change_def last_rev hd_map rev_map[symmetric] split: list.splits)

lemma total_change_Inr:
  "total_change prices = Inr c \<Longrightarrow> prices \<noteq> [] \<and> (\<exists>b. hd (rev prices) = CReal b)"
  by (auto simp: total_change_def hd_rev split: list.splits cell.splits if_splits)

lemma total_change_zero: "last prices = CReal 0 \<Longrightarrow> total_change prices \<noteq> Inr c"
  by (auto simp: total_change_def split: list.splits cell.splits)

lemma sql_limit_nat: "k < 2 ^ 63 \<Longrightarrow> sql_limit (Finite (real k)) = Inr (int k)"
proof -
  assume "k < 2 ^ 63"
  then have "real k < real (2 ^ 63)" by (rule less_imp_of_nat_less)
  then have "real k < 2 ^ 63" by simp
  moreover have "- (2 ^ 63) < real k"
    by (rule less_le_trans[of _ 0]) simp_all
  ultimately show ?thesis by simp
qed

lemma py_or_nonzero: "py_or x d = Finite y \<Longrightarrow> d \<noteq> 0 \<Longrightarrow> y \<noteq> 0"
  by (auto simp: py_or_def split: option.splits if_splits)

lemma check_run_try_window:
  assumes "get_config s ''RUN_CONSECUTIVE_PERIODS'' = Inr kc"
      and "py_or kc 5 = Finite (real k)"
      and "k < 2 ^ 63"
      and "get_config s ''RUN_THRESHOLD_PERCENT'' = Inr tc"
      and "py_or tc 10 = tf"
  shows "check_run_try e cid s =
     (if length (recent_prices s cid (int k)) < k then Inr s
      else (case all_lt (zip (rev (recent_prices s cid (int k)))
                             (tl (rev (recent_prices s cid (int k))))) of
              Inl err \<Rightarrow> Inl err
            | Inr is_run \<Rightarrow>
                if is_run
                then (case total_change (recent_prices s cid (int k)) of
                        Inl err \<Rightarrow> Inl err
                      | Inr change \<Rightarrow>
                          if float_ge change tf
                          then Inr ((send_notification e (RunAlert cid change (real k)) s)
                                 \<lparr>log := log (send_notification e (RunAlert cid change (real k)) s)
                                          @ [RunDetected cid change]\<rparr>)
                          else Inr s)
                else Inr s))"
  using assms(1,2,4,5)
  by (simp add: check_run_try_def Let_def sql_limit_nat[OF assms(3)] del: sql_limit.simps
           split: sum.splits)

lemma run_alert_reals:
  assumes "get_config s ''RUN_CONSECUTIVE_PERIODS'' = Inr kc"
      and "py_or kc 5 = Finite (real k)"
      and "k < 2 ^ 63"
      and "get_config s ''RUN_THRESHOLD_PERCENT'' = Inr tc"
      and "py_or tc 10 = tf"
      and "length (recent_prices s cid (int k)) = k"
      and "rev (recent_prices s cid (int k)) = map CReal p"
  shows "outbox (check_run e cid s) =
           outbox s @ (if sorted_wrt (<) p \<and> hd p \<noteq> 0 \<and> float_ge (percent_change (last p) (hd p)) tf
                       then [(RunAlert cid (percent_change (last p) (hd p)) (real k),
                              bot_ok e (length (outbox s)))]
                       else [])"
proof -
  have "real k \<noteq> 0" using py_or_nonzero[OF assms(2)] by simp
  then have "p \<noteq> []" using assms(6,7) by (cases p) auto
  have W: "recent_prices s cid (int k) = rev (map CReal p)"
    using assms(7) by (metis rev_rev_ident)
  show ?thesis
    unfolding check_run_def check_run_try_window[OF assms(1-5)]
    using assms(6) \<open>p \<noteq> []\<close>
    by (simp add: W all_lt_reals total_change_reals send_notification_outbox)
qed

lemma run_alert_not_reals:
  assumes "get_config s ''RUN_CONSECUTIVE_PERIODS'' = Inr kc"
      and "py_or kc 5 = Finite (real k)"
      and "k < 2 ^ 63"
      and "get_config s ''RUN_THRESHOLD_PERCENT'' = Inr tc"
      and "py_or tc 10 = tf"
      and "\<not> (\<exists>p. rev (recent_prices s cid (int k)) = map CReal p)"
  shows "outbox (check_run e cid s) = outbox s"
proof -
  let ?W = "recent_prices s cid (int k)"
  have "\<not> (all_lt (zip (rev ?W) (tl (rev ?W))) = Inr True \<and> (\<exists>c. total_change ?W = Inr c))"
  proof
    assume a: "all_lt (zip (rev ?W) (tl (rev ?W))) = Inr True \<and> (\<exists>c. total_change ?W = Inr c)"
    then obtain c where "total_change ?W = Inr c" by blast
    from total_change_Inr[OF this] obtain b where "rev ?W \<noteq> []" "hd (rev ?W) = CReal b" by auto
    with a all_lt_same_kind[of "rev ?W" b] have "\<exists>p. rev ?W = map CReal p" by blast
    with assms(6) show False by blast
  qed
  then show ?thesis
    unfolding check_run_def check_run_try_window[OF assms(1-5)]
    by (auto split: sum.splits)
qed

lemma run_alert_short:
  assumes "get_config s ''RUN_CONSECUTIVE_PERIODS'' = Inr kc"
      and "py_or kc 5 = Finite (real k)"
      and "k < 2 ^ 63"
      and "get_config s ''RUN_THRESHOLD_PERCENT'' = Inr tc"
      and "py_or tc 10 = tf"
      and "length (recent_prices s cid (int k)) < k"
  shows "outbox (check_run e cid s) = outbox s"
  unfolding check_run_def check_run_try_window[OF assms(1-5)]
  using assms(6) by simp

text \<open>
  C1. Let the store give \<open>k\<close> periods and the threshold \<open>tf\<close> (after the defaults 5 and 10).
  Then \<open>check_run\<close> hands the bot a run alert for the asset if and only if at least \<open>k\<close>
  samples of the asset are recorded and the \<open>k\<close> most recent prices, oldest first, are
  numbers \<open>p\<close> that increase strictly, with \<open>p[0]\<close> not 0 and
  \<open>(p[k-1] - p[0]) / p[0] * 100 >= tf\<close>, the change being computed in binary64 arithmetic as
  the code computes it. It hands the bot nothing else, and the alert carries this change.
  With fewer than \<open>k\<close> samples there is no alert.
\<close>

theorem run_detector_iff:
  assumes "get_config s ''RUN_CONSECUTIVE_PERIODS'' = Inr kc"
      and "py_or kc 5 = Finite (real k)"
      and "k < 2 ^ 63"
      and "get_config s ''RUN_THRESHOLD_PERCENT'' = Inr tc"
      and "py_or tc 10 = tf"
  shows "((\<exists>c ok. outbox (check_run e cid s) = outbox s @ [(RunAlert cid c (real k), ok)])
          \<longleftrightarrow> k \<le> length (filter (\<lambda>r. ph_coin_id r = cid) (price_history s))
              \<and> (\<exists>p. rev (recent_prices s cid (int k)) = map CReal p
                    \<and> sorted_wrt (<) p \<and> hd p \<noteq> 0
                    \<and> float_ge (percent_change (last p) (hd p)) tf))
       \<and> (outbox (check_run e cid s) = outbox s
          \<or> (\<exists>p. rev (recent_prices s cid (int k)) = map CReal p
                \<and> outbox (check_run e cid s)
                    = outbox s @ [(RunAlert cid (percent_change (last p) (hd p)) (real k),
                                   bot_ok e (length (outbox s)))]))"
proof -
  let ?W = "recent_prices s cid (int k)"
  let ?N = "length (filter (\<lambda>r. ph_coin_id r = cid) (price_history s))"
  have len: "length ?W = min k ?N" by (rule length_recent_prices)
  show ?thesis
  proof (cases "length ?W < k")
    case True
    then have "\<not> k \<le> ?N" using len by simp
    moreover have "outbox (check_run e cid s) = outbox s"
      by (rule run_alert_short[OF assms True])
    ultimately show ?thesis by simp
  next
    case False
    then have full: "length ?W = k" and kN: "k \<le> ?N" using len by simp_all
    show ?thesis
    proof (cases "\<exists>p. rev ?W = map CReal p")
      case True
      then obtain p where p: "rev ?W = map CReal p" ..
      have "inj CReal" by (simp add: inj_def)
      then have uniq: "q = p" if "rev ?W = map CReal q" for q
        using that p by (metis map_injective)
      have out: "outbox (check_run e cid s) =
           outbox s @ (if sorted_wrt (<) p \<and> hd p \<noteq> 0 \<and> float_ge (percent_change (last p) (hd p)) tf
                       then [(RunAlert cid (percent_change (last p) (hd p)) (real k),
                              bot_ok e (length (outbox s)))]
                       else [])"
        by (rule run_alert_reals[OF assms full p])
      show ?thesis
      proof (cases "sorted_wrt (<) p \<and> hd p \<noteq> 0 \<and> float_ge (percent_change (last p) (hd p)) tf")
        case True
        with out kN p show ?thesis by auto
      next
        case False
        with out have same: "outbox (check_run e cid s) = outbox s" by simp
        from False uniq have "\<not> (\<exists>q. rev ?W = map CReal q \<and> sorted_wrt (<) q \<and> hd q \<noteq> 0
                    \<and> float_ge (percent_change (last q) (hd q)) tf)" by blast
        with same show ?thesis by simp
      qed
    next
      case False
      have "outbox (check_run e cid s) = outbox s"
        by (rule run_alert_not_reals[OF assms False])
      with False show ?thesis by simp
    qed
  qed
qed

lemmas float_eval =
  round_double_def binade_def pow2_def round_even_def halvings.simps doublings.simps Let_def

lemmas py_float_eval =
  py_float_def strip_def py_isspace_def unsign_def lower_def floatnumber_def mantissa_def
  digitpart_def is_digit_def digit_val_def decimal_def exponent_def scale10_def float_eval

lemma ether_run_config:
  "get_config ether_run ''RUN_CONSECUTIVE_PERIODS'' = Inr (Some (Finite 5))"
  "get_config ether_run ''RUN_THRESHOLD_PERCENT'' = Inr (Some (Finite 15))"
  by (simp_all add: get_config_def ether_run_def py_float_eval)

lemma ether_run_prices:
  "recent_prices ether_run ''ether'' 5 = [CReal 120, CReal 115, CReal 110, CReal 105, CReal 100]"
  by (simp add: recent_prices_def recent_rows_def ether_run_def sample_def sort_key_def)

lemma ether_run_change: "percent_change 120 100 = Finite 20"
  by (simp add: percent_change_def float_sub_def float_eval)

lemma ether_boundary_config:
  "get_config ether_boundary ''RUN_CONSECUTIVE_PERIODS'' = Inr (Some (Finite 3))"
  "get_config ether_boundary ''RUN_THRESHOLD_PERCENT'' = Inr (Some (Finite 29))"
  by (simp_all add: get_config_def ether_boundary_def py_float_eval)

lemma ether_boundary_prices:
  "recent_prices ether_boundary ''ether'' 3 = [CReal 129, CReal 110, CReal 100]"
  by (simp add: recent_prices_def recent_rows_def ether_boundary_def sample_def sort_key_def)

lemma ether_boundary_change: "percent_change 129 100 = Finite (8162774324609023 / 2 ^ 48)"
  by (simp add: percent_change_def float_sub_def float_eval)

theorem run_detector_iff_witness:
  "get_config ether_run ''RUN_CONSECUTIVE_PERIODS'' = Inr (Some (Finite 5))
   \<and> py_or (Some (Finite 5)) 5 = Finite (real 5) \<and> (5 :: nat) < 2 ^ 63
   \<and> get_config ether_run ''RUN_THRESHOLD_PERCENT'' = Inr (Some (Finite 15))
   \<and> py_or (Some (Finite 15)) 10 = Finite 15
   \<and> outbox (check_run demo_env ''ether'' ether_run)
       = outbox ether_run @ [(RunAlert ''ether'' (Finite 20) (real 5), True)]
   \<and> get_config ether_boundary ''RUN_CONSECUTIVE_PERIODS'' = Inr (Some (Finite 3))
   \<and> py_or (Some (Finite 3)) 5 = Finite (real 3) \<and> (3 :: nat) < 2 ^ 63
   \<and> get_config ether_boundary ''RUN_THRESHOLD_PERCENT'' = Inr (Some (Finite 29))
   \<and> py_or (Some (Finite 29)) 10 = Finite 29
   \<and> percent_change 129 100 = Finite (8162774324609023 / 2 ^ 48)
   \<and> outbox (check_run demo_env ''ether'' ether_boundary) = outbox ether_boundary"
proof -
  have k: "py_or (Some (Finite 5)) 5 = Finite (real 5)" by (simp add: py_or_def)
  have t: "py_or (Some (Finite 15)) 10 = Finite 15" by (simp add: py_or_def)
  have n: "(5 :: nat) < 2 ^ 63" by simp
  have p: "rev (recent_prices ether_run ''ether'' (int 5)) = map CReal [100, 105, 110, 115, 120]"
    by (simp add: ether_run_prices)
  have uniq: "q = [100, 105, 110, 115, 120]"
    if "rev (recent_prices ether_run ''ether'' (int 5)) = map CReal q" for q
  proof -
    have "inj CReal" by (simp add: inj_def)
    with that p show ?thesis by (metis map_injective)
  qed
  have run: "\<exists>p. rev (recent_prices ether_run ''ether'' (int 5)) = map CReal p
        \<and> sorted_wrt (<) p \<and> hd p \<noteq> 0 \<and> float_ge (percent_change (last p) (hd p)) (Finite 15)"
    by (rule exI[of _ "[100, 105, 110, 115, 120]"]) (simp add: ether_run_prices ether_run_change)
  have enough: "5 \<le> length (filter (\<lambda>r. ph_coin_id r = ''ether'') (price_history ether_run))"
    by (simp add: ether_run_def sample_def)
  have bot: "bot_ok demo_env (length (outbox ether_run))" by (simp add: demo_env_def)
  from run_detector_iff[OF ether_run_config(1) k n ether_run_config(2) t, of demo_env "''ether''"]
       enough run
  have "\<exists>q. rev (recent_prices ether_run ''ether'' (int 5)) = map CReal q
          \<and> outbox (check_run demo_env ''ether'' ether_run)
              = outbox ether_run @ [(RunAlert ''ether'' (percent_change (last q) (hd q)) (real 5),
                                     bot_ok demo_env (length (outbox ether_run)))]"
    by auto
  then obtain q where q: "rev (recent_prices ether_run ''ether'' (int 5)) = map CReal q"
    and oq: "outbox (check_run demo_env ''ether'' ether_run)
              = outbox ether_run @ [(RunAlert ''ether'' (percent_change (last q) (hd q)) (real 5),
                                     bot_ok demo_env (length (outbox ether_run)))]"
    by blast
  from uniq[OF q] have "percent_change (last q) (hd q) = Finite 20"
    by (simp add: ether_run_change)
  with oq bot have alert: "outbox (check_run demo_env ''ether'' ether_run)
       = outbox ether_run @ [(RunAlert ''ether'' (Finite 20) (real 5), True)]"
    by simp
  have k3: "py_or (Some (Finite 3)) 5 = Finite (real 3)" by (simp add: py_or_def)
  have t3: "py_or (Some (Finite 29)) 10 = Finite 29" by (simp add: py_or_def)
  have n3: "(3 :: nat) < 2 ^ 63" by simp
  have p3: "rev (recent_prices ether_boundary ''ether'' (int 3)) = map CReal [100, 110, 129]"
    by (simp add: ether_boundary_prices)
  have no_run: "\<not> (\<exists>p. rev (recent_prices ether_boundary ''ether'' (int 3)) = map CReal p
        \<and> sorted_wrt (<) p \<and> hd p \<noteq> 0 \<and> float_ge (percent_change (last p) (hd p)) (Finite 29))"
  proof
    assume "\<exists>p. rev (recent_prices ether_boundary ''ether'' (int 3)) = map CReal p
        \<and> sorted_wrt (<) p \<and> hd p \<noteq> 0 \<and> float_ge (percent_change (last p) (hd p)) (Finite 29)"
    then obtain q where q: "rev (recent_prices ether_boundary ''ether'' (int 3)) = map CReal q"
      and ge: "float_ge (percent_change (last q) (hd q)) (Finite 29)" by blast
    have "inj CReal" by (simp add: inj_def)
    with q p3 have "q = [100, 110, 129]" by (metis map_injective)
    with ge show False by (simp add: ether_boundary_change)
  qed
  from run_detector_iff[OF ether_boundary_config(1) k3 n3 ether_boundary_config(2) t3,
         of demo_env "''ether''"] no_run
  have quiet: "outbox (check_run demo_env ''ether'' ether_boundary) = outbox ether_boundary"
    by auto
  from k t n ether_run_config alert k3 t3 n3 ether_boundary_config ether_boundary_change quiet
  show ?thesis by blast
qed

text \<open>
  C6. When the oldest price of the window that \<open>check_run\<close> reads is 0, \<open>check_run\<close> hands
  the bot nothing and changes nothing but the log: the division by zero is an exception of
  the \<open>try\<close> block, which \<open>check_run\<close> catches and logs.
\<close>

theorem zero_oldest_price_no_run:
  assumes "get_config s ''RUN_CONSECUTIVE_PERIODS'' = Inr kc"
      and "sql_limit (py_or kc 5) = Inr n"
      and "last (recent_prices s cid n) = CReal 0"
  shows "outbox (check_run e cid s) = outbox s
       \<and> (\<exists>l. check_run e cid s = s\<lparr>log := l\<rparr>)
       \<and> (\<forall>s'. check_run_try e cid s = Inr s' \<longrightarrow> s' = s)"
proof -
  have unchanged: "check_run_try e cid s = Inr s' \<Longrightarrow> s' = s" for s'
    using assms total_change_zero[OF assms(3)]
    unfolding check_run_try_def Let_def
    by (auto split: sum.splits if_splits)
  show ?thesis
  proof (cases "check_run_try e cid s")
    case (Inl err)
    then have "check_run e cid s = s\<lparr>log := log s @ [RunError cid err]\<rparr>"
      by (simp add: check_run_def)
    with Inl show ?thesis by auto
  next
    case (Inr s')
    with unchanged have eq: "check_run e cid s = s" by (simp add: check_run_def)
    have "s = s\<lparr>log := log s\<rparr>" by simp
    then have "\<exists>l. s = s\<lparr>log := l\<rparr>" by (rule exI[of _ "log s"])
    with unchanged eq show ?thesis by simp
  qed
qed

lemma ether_from_zero_config:
  "get_config ether_from_zero ''RUN_CONSECUTIVE_PERIODS'' = Inr (Some (Finite 5))"
  "get_config ether_from_zero ''RUN_THRESHOLD_PERCENT'' = Inr (Some (Finite 15))"
  by (simp_all add: get_config_def ether_from_zero_def py_float_eval)

lemma ether_from_zero_prices:
  "recent_prices ether_from_zero ''ether'' 5
     = [CReal 120, CReal 115, CReal 110, CReal 105, CReal 0]"
  by (simp add: recent_prices_def recent_rows_def ether_from_zero_def sample_def sort_key_def)

theorem zero_oldest_price_no_run_witness:
  "get_config ether_from_zero ''RUN_CONSECUTIVE_PERIODS'' = Inr (Some (Finite 5))
   \<and> sql_limit (py_or (Some (Finite 5)) 5) = Inr 5
   \<and> last (recent_prices ether_from_zero ''ether'' 5) = CReal 0
   \<and> outbox (check_run demo_env ''ether'' ether_from_zero) = []
   \<and> check_run_try demo_env ''ether'' ether_from_zero = Inl ZeroDivisionError"
proof -
  have l: "sql_limit (py_or (Some (Finite 5)) 5) = Inr 5" by (simp add: py_or_def)
  have z: "last (recent_prices ether_from_zero ''ether'' 5) = CReal 0"
    by (simp add: ether_from_zero_prices)
  have "check_run_try demo_env ''ether'' ether_from_zero = Inl ZeroDivisionError"
    by (simp add: check_run_try_def ether_from_zero_config py_or_def ether_from_zero_prices
          total_change_def)
  moreover have "outbox ether_from_zero = []" by (simp add: ether_from_zero_def)
  ultimately show ?thesis
    using zero_oldest_price_no_run[OF ether_from_zero_config(1) l z, of demo_env]
          ether_from_zero_config(1) l z
    by simp
qed


section \<open>Delivery failures\<close>

lemma same_but_delivery_refl: "same_but_delivery s s"
  by (simp add: same_but_delivery_def)

lemma same_send:
  "same_but_delivery s s'
   \<Longrightarrow> same_but_delivery (send_notification (e\<lparr>bot_ok := b\<rparr>) m s) (send_notification e m s')"
  by (simp add: same_but_delivery_def send_notification_def)

lemma same_log:
  "same_but_delivery s s' \<Longrightarrow> same_but_delivery (s\<lparr>log := l\<rparr>) (s'\<lparr>log := l'\<rparr>)"
  by (simp add: same_but_delivery_def)

lemma bind_price_bot: "bind_price (e\<lparr>bot_ok := b\<rparr>) p = bind_price e p"
  by (cases p) simp_all

lemma same_log_price:
  "same_but_delivery s s'
   \<Longrightarrow> same_but_delivery (log_price (e\<lparr>bot_ok := b\<rparr>) cid p s) (log_price e cid p s')"
  by (simp add: same_but_delivery_def log_price_def bind_price_bot split: sum.splits)

lemma same_get_config: "same_but_delivery s s' \<Longrightarrow> get_config s key = get_config s' key"
  by (simp add: same_but_delivery_def get_config_def)

lemma same_recent_prices:
  "same_but_delivery s s' \<Longrightarrow> recent_prices s cid n = recent_prices s' cid n"
  by (simp add: same_but_delivery_def recent_prices_def recent_rows_def)

lemma same_get_coins: "same_but_delivery s s' \<Longrightarrow> get_coins s = get_coins s'"
  by (simp add: same_but_delivery_def get_coins_def)

lemma same_check_run_try:
  assumes "same_but_delivery s s'"
  shows "rel_sum (=) same_but_delivery
           (check_run_try (e\<lparr>bot_ok := b\<rparr>) cid s) (check_run_try e cid s')"
  unfolding check_run_try_def Let_def same_get_config[OF assms] same_recent_prices[OF assms]
  using assms
  by (auto split: sum.splits intro!: same_log same_send)

lemma same_check_run:
  assumes "same_but_delivery s s'"
  shows "same_but_delivery (check_run (e\<lparr>bot_ok := b\<rparr>) cid s) (check_run e cid s')"
  using same_check_run_try[OF assms, where e = e and b = b and cid = cid] assms
  unfolding check_run_def
  by (auto split: sum.splits intro!: same_log)

lemma same_process_coin:
  assumes "same_but_delivery s s'"
  shows "fst (process_coin (e\<lparr>bot_ok := b\<rparr>) rj c s) = fst (process_coin e rj c s')
       \<and> same_but_delivery (snd (process_coin (e\<lparr>bot_ok := b\<rparr>) rj c s))
                            (snd (process_coin e rj c s'))"
  using assms unfolding process_coin_def Let_def
  by (auto split: prod.splits sum.splits
           intro!: same_check_run same_log same_send same_log_price)

lemma same_process_coins:
  "same_but_delivery s s'
   \<Longrightarrow> fst (process_coins (e\<lparr>bot_ok := b\<rparr>) rj cs s) = fst (process_coins e rj cs s')
       \<and> same_but_delivery (snd (process_coins (e\<lparr>bot_ok := b\<rparr>) rj cs s))
                            (snd (process_coins e rj cs s'))"
proof (induction cs arbitrary: s s')
  case Nil
  then show ?case by simp
next
  case (Cons c cs)
  obtain r1 t1 where a: "process_coin (e\<lparr>bot_ok := b\<rparr>) rj c s = (r1, t1)"
    by (cases "process_coin (e\<lparr>bot_ok := b\<rparr>) rj c s")
  obtain r2 t2 where b: "process_coin e rj c s' = (r2, t2)"
    by (cases "process_coin e rj c s'")
  from same_process_coin[OF Cons.prems, where e = e and b = b and rj = rj and c = c] a b
  have f: "r1 = r2" and r: "same_but_delivery t1 t2"
    by simp_all
  show ?case
  proof (cases r2)
    case None
    with f a b Cons.IH[OF r] show ?thesis by simp
  next
    case (Some err)
    with f a b r show ?thesis by simp
  qed
qed

lemma same_price_try:
  "same_but_delivery s s'
   \<Longrightarrow> fst (price_try (e\<lparr>bot_ok := b\<rparr>) feed cs s) = fst (price_try e feed cs s')
       \<and> same_but_delivery (snd (price_try (e\<lparr>bot_ok := b\<rparr>) feed cs s))
                            (snd (price_try e feed cs s'))"
  using same_process_coins[where s = s and s' = s' and e = e and b = b and cs = cs]
  by (cases feed) (simp_all add: price_try_def)

lemma same_check_price:
  assumes "same_but_delivery s s'"
  shows "same_but_delivery (check_price_increase_async (e\<lparr>bot_ok := b\<rparr>) feed s)
                           (check_price_increase_async e feed s')"
proof -
  obtain r1 t1 where a: "price_try (e\<lparr>bot_ok := b\<rparr>) feed (get_coins s') s = (r1, t1)"
    by (cases "price_try (e\<lparr>bot_ok := b\<rparr>) feed (get_coins s') s")
  obtain r2 t2 where b: "price_try e feed (get_coins s') s' = (r2, t2)"
    by (cases "price_try e feed (get_coins s') s'")
  from same_price_try[OF assms, where e = e and b = b and feed = feed and cs = "get_coins s'"] a b
  have f: "r1 = r2" and r: "same_but_delivery t1 t2" by simp_all
  from assms f r a b show ?thesis
    unfolding check_price_increase_async_def Let_def same_get_coins[OF assms]
    by (auto split: option.splits intro!: same_log same_send)
qed

lemma same_fetch_news:
  "same_but_delivery s s'
   \<Longrightarrow> fst (fetch_latest_news feed s) = fst (fetch_latest_news feed s')
       \<and> same_but_delivery (snd (fetch_latest_news feed s)) (snd (fetch_latest_news feed s'))"
  by (auto simp: fetch_latest_news_def split: sum.splits intro!: same_log)

lemma same_send_news_loop:
  "same_but_delivery s s'
   \<Longrightarrow> fst (send_news_loop (e\<lparr>bot_ok := b\<rparr>) items s) = fst (send_news_loop e items s')
       \<and> same_but_delivery (snd (send_news_loop (e\<lparr>bot_ok := b\<rparr>) items s))
                            (snd (send_news_loop e items s'))"
proof (induction items arbitrary: s s')
  case Nil
  then show ?case by simp
next
  case (Cons item items)
  show ?case
  proof (cases "news_message item")
    case (Inl err)
    with Cons.prems show ?thesis by simp
  next
    case (Inr m)
    with Cons.IH[OF same_send[OF Cons.prems, where e = e and b = b and m = m]] show ?thesis by simp
  qed
qed

lemma same_send_news:
  "same_but_delivery s s'
   \<Longrightarrow> fst (send_news_notifications (e\<lparr>bot_ok := b\<rparr>) news s)
         = fst (send_news_notifications e news s')
       \<and> same_but_delivery (snd (send_news_notifications (e\<lparr>bot_ok := b\<rparr>) news s))
                            (snd (send_news_notifications e news s'))"
  using same_send_news_loop[where s = s and s' = s' and e = e and b = b]
  by (simp add: send_news_notifications_def split: sum.splits)

lemma same_check_news:
  assumes "same_but_delivery s s'"
  shows "fst (check_news_async (e\<lparr>bot_ok := b\<rparr>) feed s) = fst (check_news_async e feed s')
       \<and> same_but_delivery (snd (check_news_async (e\<lparr>bot_ok := b\<rparr>) feed s))
                            (snd (check_news_async e feed s'))"
proof (cases "get_coins s' = []")
  case True
  with assms show ?thesis
    unfolding check_news_async_def same_get_coins[OF assms]
    by (auto intro!: same_log)
next
  case False
  obtain n1 t1 where a: "fetch_latest_news feed s = (n1, t1)" by (cases "fetch_latest_news feed s")
  obtain n2 t2 where b: "fetch_latest_news feed s' = (n2, t2)" by (cases "fetch_latest_news feed s'")
  from same_fetch_news[OF assms, where feed = feed] a b have n: "n1 = n2" and t: "same_but_delivery t1 t2"
    by simp_all
  from same_send_news[OF t, where e = e and b = b and news = n2] False n t a b show ?thesis
    unfolding check_news_async_def same_get_coins[OF assms]
    by (auto split: prod.splits option.splits intro!: same_log)
qed

lemma same_watch_cycle:
  assumes "same_but_delivery s s'"
  shows "fst (watch_cycle (e\<lparr>bot_ok := b\<rparr>) i s) = fst (watch_cycle e i s')
       \<and> same_but_delivery (snd (watch_cycle (e\<lparr>bot_ok := b\<rparr>) i s)) (snd (watch_cycle e i s'))"
proof -
  have "same_but_delivery (check_price_increase_async (e\<lparr>bot_ok := b\<rparr>) (price_feed e i) s)
                          (check_price_increase_async e (price_feed e i) s')"
    by (rule same_check_price[OF assms])
  from same_check_news[OF this, where e = e and b = b and feed = "news_feed e i"] show ?thesis
    unfolding watch_cycle_def Let_def
    by (auto split: prod.splits option.splits simp: same_but_delivery_def)
qed

lemma same_start_watching:
  "same_but_delivery s s'
   \<Longrightarrow> fst (start_watching (e\<lparr>bot_ok := b\<rparr>) n i s) = fst (start_watching e n i s')
       \<and> same_but_delivery (snd (start_watching (e\<lparr>bot_ok := b\<rparr>) n i s))
                            (snd (start_watching e n i s'))"
proof (induction n arbitrary: i s s')
  case 0
  then show ?case by simp
next
  case (Suc n)
  obtain r1 t1 where a: "watch_cycle (e\<lparr>bot_ok := b\<rparr>) i s = (r1, t1)"
    by (cases "watch_cycle (e\<lparr>bot_ok := b\<rparr>) i s")
  obtain r2 t2 where b: "watch_cycle e i s' = (r2, t2)"
    by (cases "watch_cycle e i s'")
  from same_watch_cycle[OF Suc.prems, where e = e and b = b and i = i] a b
  have f: "r1 = r2" and r: "same_but_delivery t1 t2"
    by simp_all
  show ?case
  proof (cases r2)
    case None
    with f a b Suc.IH[OF r] show ?thesis by simp
  next
    case (Some err)
    with f a b r show ?thesis by simp
  qed
qed

lemma upt_shift: "[a ..< Suc (a + l)] = a # [Suc a ..< Suc (a + l)]"
  by (rule upt_conv_Cons) simp

lemma send_notification_eq:
  "send_notification e m s
     = s\<lparr>outbox := outbox s @ [(m, bot_ok e (length (outbox s)))],
         log := log s @ [delivery_log (m, bot_ok e (length (outbox s)))]\<rparr>"
  by (simp add: send_notification_def delivery_log_def)

lemma send_news_loop_all:
  "map news_message items = map Inr msgs
   \<Longrightarrow> fst (send_news_loop e items s) = None
       \<and> outbox (snd (send_news_loop e items s))
           = outbox s @ zip msgs (map (bot_ok e)
                                   [length (outbox s) ..< length (outbox s) + length msgs])
       \<and> log (snd (send_news_loop e items s))
           = log s @ map delivery_log
                       (zip msgs (map (bot_ok e)
                                    [length (outbox s) ..< length (outbox s) + length msgs]))"
proof (induction items arbitrary: msgs s)
  case Nil
  then show ?case by simp
next
  case (Cons item items)
  from Cons.prems obtain m ms where msgs: "msgs = m # ms" and m: "news_message item = Inr m"
    and ms: "map news_message items = map Inr ms"
    by (cases msgs) auto
  have o: "outbox (send_notification e m s) = outbox s @ [(m, bot_ok e (length (outbox s)))]"
   and l: "log (send_notification e m s)
             = log s @ [delivery_log (m, bot_ok e (length (outbox s)))]"
    by (simp_all add: send_notification_eq)
  from Cons.IH[OF ms, where s = "send_notification e m s"] show ?case
    by (simp add: m msgs o l upt_shift del: upt_Suc)
qed

section \<open>The steps of a cycle\<close>

lemma process_coin_frame:
  "coins (snd (process_coin e rj c s)) = coins s
   \<and> sleeps (snd (process_coin e rj c s)) = sleeps s"
  unfolding process_coin_def Let_def
  by (auto split: prod.splits sum.splits
           simp: check_run_frame send_notification_frame log_price_frame)

lemma process_coins_frame:
  "coins (snd (process_coins e rj cs s)) = coins s
   \<and> sleeps (snd (process_coins e rj cs s)) = sleeps s"
proof (induction cs arbitrary: s)
  case Nil
  then show ?case by simp
next
  case (Cons c cs)
  obtain r t where a: "process_coin e rj c s = (r, t)" by (cases "process_coin e rj c s")
  with process_coin_frame[of e rj c s] have t: "coins t = coins s" "sleeps t = sleeps s"
    by simp_all
  show ?case
  proof (cases r)
    case None
    with a t Cons.IH[of t] show ?thesis by simp
  next
    case (Some err)
    with a t show ?thesis by simp
  qed
qed

lemma price_try_frame:
  "coins (snd (price_try e feed cs s)) = coins s
   \<and> sleeps (snd (price_try e feed cs s)) = sleeps s"
  using process_coins_frame[of e _ cs s]
  by (cases feed) (simp_all add: price_try_def)

lemma check_price_frame:
  "coins (check_price_increase_async e feed s) = coins s
   \<and> sleeps (check_price_increase_async e feed s) = sleeps s"
proof -
  obtain r t where a: "price_try e feed (get_coins s) s = (r, t)"
    by (cases "price_try e feed (get_coins s) s")
  with price_try_frame[of e feed "get_coins s" s]
  have "coins t = coins s" "sleeps t = sleeps s" by simp_all
  with a show ?thesis
    by (cases r) (simp_all add: check_price_increase_async_def Let_def send_notification_frame)
qed

lemma fetch_latest_news_fst:
  "fst (fetch_latest_news feed s) = fst (fetch_latest_news feed s')"
  by (simp add: fetch_latest_news_def split: sum.splits)

lemma fetch_latest_news_frame:
  "coins (snd (fetch_latest_news feed s)) = coins s"
  "price_history (snd (fetch_latest_news feed s)) = price_history s"
  "outbox (snd (fetch_latest_news feed s)) = outbox s"
  "sleeps (snd (fetch_latest_news feed s)) = sleeps s"
  by (simp_all add: fetch_latest_news_def split: sum.splits)

lemma send_news_loop_fst:
  "fst (send_news_loop e items s) = fst (send_news_loop e' items s')"
proof (induction items arbitrary: s s')
  case Nil
  then show ?case by simp
next
  case (Cons item items)
  then show ?case by (cases "news_message item") simp_all
qed

lemma news_message_not_failure: "news_message item = Inr m \<Longrightarrow> \<not> is_fetch_failed m"
  by (auto simp: news_message_def split: sum.splits)

lemma fetch_failures_send:
  "fetch_failures (send_notification e m s)
     = fetch_failures s @ (if is_fetch_failed m then [m] else [])"
  by (simp add: fetch_failures_def send_notification_outbox)

lemma send_news_loop_frame:
  "coins (snd (send_news_loop e items s)) = coins s
   \<and> price_history (snd (send_news_loop e items s)) = price_history s
   \<and> sleeps (snd (send_news_loop e items s)) = sleeps s
   \<and> fetch_failures (snd (send_news_loop e items s)) = fetch_failures s"
proof (induction items arbitrary: s)
  case Nil
  then show ?case by simp
next
  case (Cons item items)
  show ?case
  proof (cases "news_message item")
    case (Inl err)
    then show ?thesis by simp
  next
    case (Inr m)
    with Cons.IH[of "send_notification e m s"] news_message_not_failure[OF Inr] show ?thesis
      by (simp add: send_notification_frame fetch_failures_send)
  qed
qed

lemma check_news_frame:
  "coins (snd (check_news_async e feed s)) = coins s
   \<and> price_history (snd (check_news_async e feed s)) = price_history s
   \<and> sleeps (snd (check_news_async e feed s)) = sleeps s
   \<and> fetch_failures (snd (check_news_async e feed s)) = fetch_failures s"
proof (cases "get_coins s = []")
  case True
  then show ?thesis by (simp add: check_news_async_def fetch_failures_def)
next
  case False
  obtain news s1 where f: "fetch_latest_news feed s = (news, s1)"
    by (cases "fetch_latest_news feed s")
  from fetch_latest_news_frame[of feed s] f
  have s1: "coins s1 = coins s" "price_history s1 = price_history s" "sleeps s1 = sleeps s"
    "fetch_failures s1 = fetch_failures s"
    by (simp_all add: fetch_failures_def)
  show ?thesis
  proof (cases "py_iter news")
    case (Inl err)
    with False f s1 show ?thesis
      by (simp add: check_news_async_def send_news_notifications_def fetch_failures_def)
  next
    case (Inr items)
    obtain r s2 where l: "send_news_loop e items s1 = (r, s2)"
      by (cases "send_news_loop e items s1")
    with send_news_loop_frame[of e items s1] s1
    have "coins s2 = coins s" "price_history s2 = price_history s" "sleeps s2 = sleeps s"
      "fetch_failures s2 = fetch_failures s"
      by simp_all
    with False f s1 Inr l show ?thesis
      by (cases r) (simp_all add: check_news_async_def send_news_notifications_def
                      fetch_failures_def)
  qed
qed

lemma check_news_fst:
  assumes "(get_coins s = []) = (get_coins s' = [])"
  shows "fst (check_news_async e feed s) = fst (check_news_async e' feed s')"
proof (cases "get_coins s' = []")
  case True
  with assms show ?thesis by (simp add: check_news_async_def)
next
  case False
  obtain n1 t1 where a: "fetch_latest_news feed s = (n1, t1)" by (cases "fetch_latest_news feed s")
  obtain n2 t2 where b: "fetch_latest_news feed s' = (n2, t2)" by (cases "fetch_latest_news feed s'")
  from fetch_latest_news_fst[of feed s s'] a b have n: "n1 = n2" by simp
  show ?thesis
  proof (cases "py_iter n2")
    case (Inl err)
    with False assms a b n show ?thesis
      by (simp add: check_news_async_def send_news_notifications_def)
  next
    case (Inr items)
    obtain r1 u1 where c: "send_news_loop e items t1 = (r1, u1)"
      by (cases "send_news_loop e items t1")
    obtain r2 u2 where d: "send_news_loop e' items t2 = (r2, u2)"
      by (cases "send_news_loop e' items t2")
    from send_news_loop_fst[of e items t1 e' t2] c d have "r1 = r2" by simp
    with False assms a b n Inr c d show ?thesis
      by (cases r2) (simp_all add: check_news_async_def send_news_notifications_def)
  qed
qed

lemma watch_cycle_outcome:
  "fst (watch_cycle e i s) = fst (check_news_async e (news_feed e i) s)
   \<and> coins (snd (watch_cycle e i s)) = coins s
   \<and> sleeps (snd (watch_cycle e i s))
       = sleeps s @ (if fst (check_news_async e (news_feed e i) s) = None
                     then [check_interval e] else [])"
proof -
  let ?s1 = "check_price_increase_async e (price_feed e i) s"
  have c: "coins ?s1 = coins s" and sl: "sleeps ?s1 = sleeps s"
    using check_price_frame[of e "price_feed e i" s] by simp_all
  from c have "(get_coins ?s1 = []) = (get_coins s = [])" by (simp add: get_coins_def)
  from check_news_fst[OF this, of e "news_feed e i" e]
  have f: "fst (check_news_async e (news_feed e i) ?s1)
             = fst (check_news_async e (news_feed e i) s)" .
  obtain r s2 where n: "check_news_async e (news_feed e i) ?s1 = (r, s2)"
    by (cases "check_news_async e (news_feed e i) ?s1")
  from check_news_frame[of e "news_feed e i" ?s1] n c sl
  have "coins s2 = coins s" "sleeps s2 = sleeps s" by simp_all
  then have c2: "coins s2 = coins s \<and> sleeps s2 = sleeps s" by simp
  from f n have r: "fst (check_news_async e (news_feed e i) s) = r" by simp
  show ?thesis
    unfolding r using n c2 by (cases r) (simp_all add: watch_cycle_def)
qed

lemma start_watching_progress:
  assumes "\<forall>j<n. fst (check_news_async e (news_feed e (i + j)) s0) = None"
      and "(get_coins s0 = []) = (get_coins s = [])"
  shows "fst (start_watching e n i s) = None
       \<and> sleeps (snd (start_watching e n i s)) = sleeps s @ replicate n (check_interval e)"
  using assms
proof (induction n arbitrary: i s)
  case 0
  then show ?case by simp
next
  case (Suc n)
  from Suc.prems(1) have "fst (check_news_async e (news_feed e (i + 0)) s0) = None" by blast
  with check_news_fst[OF Suc.prems(2), of e "news_feed e i" e]
  have ok: "fst (check_news_async e (news_feed e i) s) = None" by simp
  obtain r t where w: "watch_cycle e i s = (r, t)" by (cases "watch_cycle e i s")
  from watch_cycle_outcome[of e i s] w ok
  have r: "r = None" and c: "coins t = coins s" and sl: "sleeps t = sleeps s @ [check_interval e]"
    by simp_all
  from c Suc.prems(2) have g: "(get_coins s0 = []) = (get_coins t = [])"
    by (simp add: get_coins_def)
  from Suc.prems(1) have "\<forall>j<n. fst (check_news_async e (news_feed e (Suc i + j)) s0) = None"
    by auto
  from Suc.IH[OF this g] w r sl show ?case
    by (simp add: replicate_append_same)
qed

text \<open>
  C9. A delivery changes nothing but the record of the call and the log: a failed one is
  logged as a failure and raises nothing. Which deliveries fail changes neither whether
  the monitor task is still running after any number of cycles, nor the texts handed to the
  bot, nor the database, nor the sleeps. A cycle ends with an exception only when its news
  step does; so, whatever the bot does, when the news steps of \<open>n\<close> cycles return, the task
  runs all \<open>n\<close> cycles and sleeps after each. And when every news item gives a text,
  \<open>send_news_notifications\<close> raises nothing and hands each text to the bot, in order, each
  delivered exactly when the bot accepts this one call, and each logged as sent or failed.
\<close>

theorem delivery_failure_is_logged_only:
  "send_notification e m s
     = s\<lparr>outbox := outbox s @ [(m, bot_ok e (length (outbox s)))],
         log := log s @ [if bot_ok e (length (outbox s))
                         then NotificationSent m else NotificationFailed m]\<rparr>
   \<and> fst (start_watching (e\<lparr>bot_ok := b\<rparr>) n i s) = fst (start_watching e n i s)
   \<and> map fst (outbox (snd (start_watching (e\<lparr>bot_ok := b\<rparr>) n i s)))
       = map fst (outbox (snd (start_watching e n i s)))
   \<and> price_history (snd (start_watching (e\<lparr>bot_ok := b\<rparr>) n i s))
       = price_history (snd (start_watching e n i s))
   \<and> sleeps (snd (start_watching (e\<lparr>bot_ok := b\<rparr>) n i s))
       = sleeps (snd (start_watching e n i s))
   \<and> fst (watch_cycle e i s) = fst (check_news_async e (news_feed e i) s)
   \<and> ((\<forall>j<n. fst (check_news_async e (news_feed e (i + j)) s) = None) \<longrightarrow>
        fst (start_watching e n i s) = None
        \<and> sleeps (snd (start_watching e n i s)) = sleeps s @ replicate n (check_interval e))
   \<and> (map news_message items = map Inr msgs \<longrightarrow>
        fst (send_news_notifications e (JArr items) s) = None
        \<and> outbox (snd (send_news_notifications e (JArr items) s))
            = outbox s @ zip msgs (map (bot_ok e)
                                    [length (outbox s) ..< length (outbox s) + length msgs])
        \<and> log (snd (send_news_notifications e (JArr items) s))
            = log s @ map delivery_log
                        (zip msgs (map (bot_ok e)
                                     [length (outbox s) ..< length (outbox s) + length msgs])))"
proof -
  have a: "send_notification e m s
     = s\<lparr>outbox := outbox s @ [(m, bot_ok e (length (outbox s)))],
         log := log s @ [if bot_ok e (length (outbox s))
                         then NotificationSent m else NotificationFailed m]\<rparr>"
    by (simp add: send_notification_def)
  have p: "(\<forall>j<n. fst (check_news_async e (news_feed e (i + j)) s) = None) \<longrightarrow>
        fst (start_watching e n i s) = None
        \<and> sleeps (snd (start_watching e n i s)) = sleeps s @ replicate n (check_interval e)"
    using start_watching_progress[where e = e and n = n and i = i and s = s and ?s0.0 = s]
    by blast
  from a p watch_cycle_outcome[of e i s]
       same_start_watching[OF same_but_delivery_refl, where s = s and e = e and b = b and n = n
         and i = i]
       send_news_loop_all[where items = items and msgs = msgs and e = e and s = s]
  show ?thesis
    by (simp add: same_but_delivery_def send_news_notifications_def)
qed

lemma flaky_two_cycles:
  "start_watching flaky_env (Suc (Suc 0)) 0 watching_bitcoin
     = (None, watching_bitcoin
          \<lparr>outbox := [(FetchFailed (FetchError ''timeout''), False),
                      (FetchFailed (FetchError ''timeout''), True)],
           log := [PriceFetchError (FetchError ''timeout''),
                   NotificationFailed (FetchFailed (FetchError ''timeout'')),
                   PriceFetchError (FetchError ''timeout''),
                   NotificationSent (FetchFailed (FetchError ''timeout''))],
           sleeps := [3600, 3600]\<rparr>)"
  by (simp add: watch_cycle_def check_price_increase_async_def price_try_def get_coins_def
        watching_bitcoin_def flaky_env_def send_notification_def check_news_async_def
        fetch_latest_news_def)

theorem delivery_failure_is_logged_only_witness:
  "fst (check_news_async flaky_env (news_feed flaky_env 0) watching_bitcoin) = None
   \<and> fst (check_news_async flaky_env (news_feed flaky_env 1) watching_bitcoin) = None
   \<and> bot_ok flaky_env (length (outbox watching_bitcoin)) = False
   \<and> fst (start_watching flaky_env 2 0 watching_bitcoin) = None
   \<and> sleeps (snd (start_watching flaky_env 2 0 watching_bitcoin)) = [3600, 3600]
   \<and> outbox (snd (start_watching flaky_env 2 0 watching_bitcoin))
       = [(FetchFailed (FetchError ''timeout''), False),
          (FetchFailed (FetchError ''timeout''), True)]
   \<and> map news_message two_news
       = map Inr [NewsItem (JStr ''up'') (JStr ''u1''), NewsItem (JStr ''down'') JNull]
   \<and> outbox (snd (send_news_notifications flaky_env (JArr two_news) watching_bitcoin))
       = [(NewsItem (JStr ''up'') (JStr ''u1''), False), (NewsItem (JStr ''down'') JNull, True)]
   \<and> log (snd (send_news_notifications flaky_env (JArr two_news) watching_bitcoin))
       = [NotificationFailed (NewsItem (JStr ''up'') (JStr ''u1'')),
          NotificationSent (NewsItem (JStr ''down'') JNull)]"
proof -
  have h: "\<forall>j<2. fst (check_news_async flaky_env (news_feed flaky_env (0 + j)) watching_bitcoin)
                  = None"
    by (simp add: check_news_async_def flaky_env_def fetch_latest_news_def get_coins_def
          watching_bitcoin_def)
  have f: "bot_ok flaky_env (length (outbox watching_bitcoin)) = False"
    by (simp add: flaky_env_def watching_bitcoin_def)
  have h0: "fst (check_news_async flaky_env (news_feed flaky_env 0) watching_bitcoin) = None"
   and h1: "fst (check_news_async flaky_env (news_feed flaky_env 1) watching_bitcoin) = None"
    by (simp_all add: check_news_async_def flaky_env_def fetch_latest_news_def get_coins_def
          watching_bitcoin_def)
  have two: "(2 :: nat) = Suc (Suc 0)" by simp
  have m: "map news_message two_news
     = map Inr [NewsItem (JStr ''up'') (JStr ''u1''), NewsItem (JStr ''down'') JNull]"
    by (simp add: two_news_def news_message_def py_get_def)
  have u: "[0 ..< 2] = [0, Suc 0]" by (simp add: upt_conv_Cons)
  from delivery_failure_is_logged_only[where e = flaky_env and b = "bot_ok flaky_env" and n = 2
         and i = 0 and s = watching_bitcoin and items = two_news
         and msgs = "[NewsItem (JStr ''up'') (JStr ''u1''), NewsItem (JStr ''down'') JNull]"]
       h m
  have run: "fst (start_watching flaky_env 2 0 watching_bitcoin) = None
       \<and> sleeps (snd (start_watching flaky_env 2 0 watching_bitcoin))
           = sleeps watching_bitcoin @ replicate 2 (check_interval flaky_env)"
   and news: "outbox (snd (send_news_notifications flaky_env (JArr two_news) watching_bitcoin))
            = outbox watching_bitcoin
              @ zip [NewsItem (JStr ''up'') (JStr ''u1''), NewsItem (JStr ''down'') JNull]
                  (map (bot_ok flaky_env)
                     [length (outbox watching_bitcoin) ..< length (outbox watching_bitcoin) + 2])
        \<and> log (snd (send_news_notifications flaky_env (JArr two_news) watching_bitcoin))
            = log watching_bitcoin @ map delivery_log
                (zip [NewsItem (JStr ''up'') (JStr ''u1''), NewsItem (JStr ''down'') JNull]
                  (map (bot_ok flaky_env)
                     [length (outbox watching_bitcoin) ..< length (outbox watching_bitcoin) + 2]))"
    by simp_all
  have sl: "sleeps (snd (start_watching flaky_env 2 0 watching_bitcoin)) = [3600, 3600]"
    using run by (simp add: watching_bitcoin_def flaky_env_def two)
  have ob: "outbox (snd (start_watching flaky_env 2 0 watching_bitcoin))
       = [(FetchFailed (FetchError ''timeout''), False),
          (FetchFailed (FetchError ''timeout''), True)]"
    unfolding two flaky_two_cycles by simp
  from news u have n1: "outbox (snd (send_news_notifications flaky_env (JArr two_news) watching_bitcoin))
       = [(NewsItem (JStr ''up'') (JStr ''u1''), False), (NewsItem (JStr ''down'') JNull, True)]"
    by (simp add: watching_bitcoin_def flaky_env_def)
  from news u have n2: "log (snd (send_news_notifications flaky_env (JArr two_news) watching_bitcoin))
       = [NotificationFailed (NewsItem (JStr ''up'') (JStr ''u1'')),
          NotificationSent (NewsItem (JStr ''down'') JNull)]"
    by (simp add: watching_bitcoin_def flaky_env_def delivery_log_def)
  from h0 h1 f run sl ob m n1 n2 show ?thesis by blast
qed

section \<open>Failure of the price step\<close>

lemma fetch_failures_log: "fetch_failures (s\<lparr>log := l\<rparr>) = fetch_failures s"
  by (simp add: fetch_failures_def)

lemma fetch_failures_sleeps: "fetch_failures (s\<lparr>sleeps := l\<rparr>) = fetch_failures s"
  by (simp add: fetch_failures_def)

lemma fetch_failures_check_run: "fetch_failures (check_run e cid s) = fetch_failures s"
  using check_run_cases[of e cid s]
  by (auto simp: fetch_failures_def send_notification_outbox)

lemma fetch_failures_log_price: "fetch_failures (log_price e cid p s) = fetch_failures s"
  by (simp add: fetch_failures_def log_price_frame)

lemma fetch_failures_process_coin:
  "fetch_failures (snd (process_coin e rj c s)) = fetch_failures s"
  unfolding process_coin_def Let_def
  by (auto split: prod.splits sum.splits
           simp: fetch_failures_check_run fetch_failures_log fetch_failures_send
                 fetch_failures_log_price)

lemma fetch_failures_process_coins:
  "fetch_failures (snd (process_coins e rj cs s)) = fetch_failures s"
proof (induction cs arbitrary: s)
  case Nil
  then show ?case by simp
next
  case (Cons c cs)
  obtain r t where a: "process_coin e rj c s = (r, t)" by (cases "process_coin e rj c s")
  with fetch_failures_process_coin[of e rj c s] have t: "fetch_failures t = fetch_failures s"
    by simp
  show ?case
  proof (cases r)
    case None
    with a t Cons.IH[of t] show ?thesis by simp
  next
    case (Some err)
    with a t show ?thesis by simp
  qed
qed

lemma fetch_failures_price_try:
  "fetch_failures (snd (price_try e feed cs s)) = fetch_failures s"
  using fetch_failures_process_coins[of e _ cs s]
  by (cases feed) (simp_all add: price_try_def)

text \<open>
  C2, as the code has it. Let coins be watched and the price step fail: the request raises
  (transport error, timeout, a body that is not JSON), or the loop over a parsed response
  raises. Then \<open>check_price_increase_async\<close> catches the exception, logs it and hands the
  bot one diagnostic text; in the whole cycle exactly one diagnostic is handed to the bot.
  The exception is not propagated: the cycle ends with an exception only when its news step
  does, and when the news step returns, the task sleeps for the configured interval and the
  next cycle starts. A request that raises is such a failure, with the state as it was, and
  then the cycle records no price sample.
\<close>

theorem price_failure_cycle:
  assumes "get_coins s \<noteq> []"
      and "price_try e (price_feed e i) (get_coins s) s = (Some err, s1)"
  shows "price_try e (Inl x) (get_coins s) s = (Some x, s)
       \<and> check_price_increase_async e (price_feed e i) s
           = send_notification e (FetchFailed err) (s1\<lparr>log := log s1 @ [PriceFetchError err]\<rparr>)
       \<and> fetch_failures (snd (watch_cycle e i s)) = fetch_failures s @ [FetchFailed err]
       \<and> (price_feed e i = Inl err \<longrightarrow>
            price_history (snd (watch_cycle e i s)) = price_history s)
       \<and> fst (watch_cycle e i s) = fst (check_news_async e (news_feed e i) s)
       \<and> (fst (check_news_async e (news_feed e i) s) = None \<longrightarrow>
            sleeps (snd (watch_cycle e i s)) = sleeps s @ [check_interval e]
            \<and> start_watching e (Suc n) i s = start_watching e n (Suc i) (snd (watch_cycle e i s)))"
proof -
  let ?s1 = "send_notification e (FetchFailed err) (s1\<lparr>log := log s1 @ [PriceFetchError err]\<rparr>)"
  have p: "check_price_increase_async e (price_feed e i) s = ?s1"
    using assms by (simp add: check_price_increase_async_def)
  obtain r s2 where c: "check_news_async e (news_feed e i) ?s1 = (r, s2)"
    by (cases "check_news_async e (news_feed e i) ?s1")
  from check_news_frame[of e "news_feed e i" ?s1] c
  have h2: "price_history s2 = price_history s1" and f2: "fetch_failures s2 = fetch_failures ?s1"
    by (simp_all add: send_notification_frame)
  have w: "snd (watch_cycle e i s) = (if r = None then s2\<lparr>sleeps := sleeps s2 @ [check_interval e]\<rparr> else s2)"
    by (cases r) (simp_all add: watch_cycle_def p c)
  from fetch_failures_price_try[of e "price_feed e i" "get_coins s" s] assms(2)
  have "fetch_failures s1 = fetch_failures s" by simp
  then have one: "fetch_failures (snd (watch_cycle e i s)) = fetch_failures s @ [FetchFailed err]"
    by (simp add: w f2 fetch_failures_send fetch_failures_log fetch_failures_sleeps)
  have req: "price_history (snd (watch_cycle e i s)) = price_history s"
    if "price_feed e i = Inl err"
  proof -
    from that assms(2) have "s1 = s" by (simp add: price_try_def)
    with h2 show ?thesis by (simp add: w)
  qed
  from watch_cycle_outcome[of e i s]
  have out: "fst (watch_cycle e i s) = fst (check_news_async e (news_feed e i) s)"
   and sl: "sleeps (snd (watch_cycle e i s))
       = sleeps s @ (if fst (check_news_async e (news_feed e i) s) = None
                     then [check_interval e] else [])"
    by simp_all
  have next_cycle: "start_watching e (Suc n) i s = start_watching e n (Suc i) (snd (watch_cycle e i s))"
    if "fst (check_news_async e (news_feed e i) s) = None"
  proof -
    from that out have "fst (watch_cycle e i s) = None" by simp
    then show ?thesis by (cases "watch_cycle e i s") simp
  qed
  have raises: "price_try e (Inl x) (get_coins s) s = (Some x, s)"
    by (simp add: price_try_def)
  from raises p one req out sl next_cycle show ?thesis by simp
qed

lemma null_change_try:
  "price_try null_change_env (price_feed null_change_env 0) (get_coins watching_bitcoin)
     watching_bitcoin
     = (Some TypeError, watching_bitcoin\<lparr>price_history := [sample ''bitcoin'' 0 100]\<rparr>)"
  by (simp add: price_try_def null_change_env_def watching_bitcoin_def get_coins_def
        process_coin_def py_get_def log_price_def sample_def)

theorem price_failure_cycle_witness:
  "get_coins watching_bitcoin \<noteq> []
   \<and> price_try demo_env (price_feed demo_env 0) (get_coins watching_bitcoin) watching_bitcoin
       = (Some (FetchError ''timeout''), watching_bitcoin)
   \<and> price_feed demo_env 0 = Inl (FetchError ''timeout'')
   \<and> fst (check_news_async demo_env (news_feed demo_env 0) watching_bitcoin) = None
   \<and> fetch_failures (snd (watch_cycle demo_env 0 watching_bitcoin))
       = [FetchFailed (FetchError ''timeout'')]
   \<and> price_history (snd (watch_cycle demo_env 0 watching_bitcoin)) = []
   \<and> fst (watch_cycle demo_env 0 watching_bitcoin) = None
   \<and> sleeps (snd (watch_cycle demo_env 0 watching_bitcoin)) = [3600]
   \<and> price_try null_change_env (price_feed null_change_env 0) (get_coins watching_bitcoin)
        watching_bitcoin
       = (Some TypeError, watching_bitcoin\<lparr>price_history := [sample ''bitcoin'' 0 100]\<rparr>)
   \<and> fst (check_news_async null_change_env (news_feed null_change_env 0) watching_bitcoin) = None
   \<and> fetch_failures (snd (watch_cycle null_change_env 0 watching_bitcoin))
       = [FetchFailed TypeError]
   \<and> fst (watch_cycle null_change_env 0 watching_bitcoin) = None
   \<and> sleeps (snd (watch_cycle null_change_env 0 watching_bitcoin)) = [3600]"
proof -
  have a: "get_coins watching_bitcoin \<noteq> []" by (simp add: get_coins_def watching_bitcoin_def)
  have b: "price_try demo_env (price_feed demo_env 0) (get_coins watching_bitcoin) watching_bitcoin
       = (Some (FetchError ''timeout''), watching_bitcoin)"
    by (simp add: price_try_def demo_env_def)
  have c: "price_feed demo_env 0 = Inl (FetchError ''timeout'')" by (simp add: demo_env_def)
  have d: "fst (check_news_async demo_env (news_feed demo_env 0) watching_bitcoin) = None"
    by (simp add: check_news_async_def demo_env_def fetch_latest_news_def get_coins_def
          watching_bitcoin_def)
  have d': "fst (check_news_async null_change_env (news_feed null_change_env 0) watching_bitcoin)
              = None"
    by (simp add: check_news_async_def null_change_env_def fetch_latest_news_def get_coins_def
          watching_bitcoin_def)
  have z: "fetch_failures watching_bitcoin = [] \<and> price_history watching_bitcoin = []
           \<and> sleeps watching_bitcoin = [] \<and> check_interval demo_env = 3600
           \<and> check_interval null_change_env = 3600"
    by (simp add: fetch_failures_def watching_bitcoin_def demo_env_def null_change_env_def)
  from price_failure_cycle[OF a b, where n = 0 and x = ValueError]
       price_failure_cycle[OF a null_change_try, where n = 0 and x = ValueError]
       a b c d d' z null_change_try
  show ?thesis by simp
qed

text \<open>
  C2, as stated, fails: a response that parses but gives bitcoin a null 24h change is
  handled as a failure of the price step (one diagnostic text) after the price sample of
  the cycle has been recorded.
\<close>

theorem fetch_failure_counterexample:
  "get_coins watching_bitcoin \<noteq> [] \<and> price_history watching_bitcoin = []
   \<and> price_history (check_price_increase_async demo_env (Inr bitcoin_null_change) watching_bitcoin)
       = [sample ''bitcoin'' 0 100]
   \<and> outbox (check_price_increase_async demo_env (Inr bitcoin_null_change) watching_bitcoin)
       = [(FetchFailed TypeError, True)]"
  by (simp add: watching_bitcoin_def get_coins_def check_price_increase_async_def price_try_def
        bitcoin_null_change_def process_coin_def py_get_def log_price_def sample_def
        send_notification_def demo_env_def)

section \<open>Numbers written by \<open>str\<close> and read by \<open>int\<close> and \<open>float\<close>\<close>

lemma halvings_bound: "1 \<le> x \<Longrightarrow> h \<le> halvings x h \<and> 2 ^ (halvings x h - h) \<le> x"
proof (induction x h rule: halvings.induct)
  case (1 x h)
  show ?case
  proof (cases "2 \<le> x \<and> h < 1024")
    case True
    then have "1 \<le> x / 2" by simp
    with 1(1)[OF True] have ih: "Suc h \<le> halvings (x / 2) (Suc h)"
      "2 ^ (halvings (x / 2) (Suc h) - Suc h) \<le> x / 2" by simp_all
    have eq: "halvings x h = halvings (x / 2) (Suc h)"
      using True by (subst halvings.simps) simp
    from ih(1) have "halvings (x / 2) (Suc h) - h = Suc (halvings (x / 2) (Suc h) - Suc h)"
      by simp
    with ih show ?thesis unfolding eq by simp
  next
    case False
    then have "halvings x h = h" by (subst halvings.simps) auto
    with 1(2) show ?thesis by simp
  qed
qed

lemma round_even_of_int: "round_even (of_int m) = m"
  by (simp add: round_even_def)

lemma round_double_int:
  assumes "\<bar>n\<bar> \<le> 2 ^ 53"
  shows "round_double (of_int n) = Finite (of_int n)"
proof (cases "n = 0")
  case True
  then show ?thesis by (simp add: round_double_def)
next
  case False
  let ?x = "of_int n :: real"
  let ?H = "halvings \<bar>?x\<bar> 0"
  have ax: "\<bar>?x\<bar> = of_int \<bar>n\<bar>" by simp
  from False have "1 \<le> \<bar>n\<bar>" by simp
  then have one: "1 \<le> \<bar>?x\<bar>" unfolding ax by (simp only: of_int_1_le_iff)
  from assms have "(of_int \<bar>n\<bar> :: real) \<le> of_int (2 ^ 53)" by (simp only: of_int_le_iff)
  then have le53: "\<bar>?x\<bar> \<le> 2 ^ 53" unfolding ax by simp
  from halvings_bound[OF one, of 0] have pw: "2 ^ ?H \<le> \<bar>?x\<bar>" by simp
  have H: "?H \<le> 53"
  proof (rule power_le_imp_le_exp[of "2 :: real"])
    show "(1 :: real) < 2" by simp
    show "(2 :: real) ^ ?H \<le> 2 ^ 53" using pw le53 by linarith
  qed
  let ?u = "pow2 (binade \<bar>?x\<bar> - 52)"
  have b: "binade \<bar>?x\<bar> = int ?H" using one by (simp add: binade_def)
  have ex: "\<exists>m :: int. ?x / ?u = of_int m"
  proof (cases "?H = 53")
    case True
    with pw le53 have "\<bar>?x\<bar> = 2 ^ 53" by simp
    then have "(of_int \<bar>n\<bar> :: real) = of_int (2 ^ 53)" unfolding ax by simp
    then have "\<bar>n\<bar> = 2 ^ 53" by (simp only: of_int_eq_iff)
    then have "n = 2 ^ 53 \<or> n = - (2 ^ 53)" by linarith
    moreover have "?u = 2" using True by (simp add: b pow2_def)
    ultimately have "?x / ?u = of_int (2 ^ 52) \<or> ?x / ?u = of_int (- (2 ^ 52))" by auto
    then show ?thesis by blast
  next
    case False
    with H have lt: "?H \<le> 52" by simp
    then have "?u = 1 / 2 ^ (52 - ?H)"
      by (cases "?H = 52") (simp_all add: b pow2_def nat_diff_distrib' del: of_nat_diff)
    then have "?x / ?u = of_int (n * 2 ^ (52 - ?H))" by simp
    then show ?thesis by blast
  qed
  then obtain m :: int where m: "?x / ?u = of_int m" ..
  have u0: "?u \<noteq> 0" by (simp add: pow2_def)
  have "round_even (?x / ?u) = m" unfolding m by (rule round_even_of_int)
  then have "of_int (round_even (?x / ?u)) * ?u = ?x / ?u * ?u" by (simp only: m)
  also have "\<dots> = ?x" using u0 by simp
  finally have y: "of_int (round_even (?x / ?u)) * ?u = ?x" .
  have "\<bar>?x\<bar> < 2 ^ 1024" using le53 by (rule order_le_less_trans) simp
  with False y show ?thesis
    by (simp add: round_double_def Let_def)
qed

lemma digit_char_digit: "d < 10 \<Longrightarrow> is_digit (digit_char d) \<and> digit_val (digit_char d) = d"
  by (simp add: is_digit_def digit_val_def digit_char_def)

lemma nat_digits_digits: "c \<in> set (nat_digits n) \<Longrightarrow> is_digit c"
proof (induction n rule: nat_digits.induct)
  case (1 n)
  show ?case
  proof (cases "n < 10")
    case True
    with 1(2) digit_char_digit[of n] show ?thesis
      by (subst (asm) nat_digits.simps) simp
  next
    case False
    have "n mod 10 < 10" by simp
    with False 1 digit_char_digit[of "n mod 10"] show ?thesis
      by (subst (asm) nat_digits.simps) auto
  qed
qed

lemma nat_digits_nonempty: "nat_digits n \<noteq> []"
  by (subst nat_digits.simps) simp

lemma digits_tail_all:
  "\<forall>c \<in> set cs. is_digit c \<Longrightarrow> digits_tail cs = Some (map digit_val cs)"
  by (induction cs rule: digits_tail.induct) simp_all

lemma digitpart_all:
  "cs \<noteq> [] \<Longrightarrow> \<forall>c \<in> set cs. is_digit c \<Longrightarrow> digitpart cs = Some (map digit_val cs)"
  by (cases cs) (simp_all add: digitpart_def digits_tail_all)

lemma decimal_snoc: "decimal (ds @ [d]) = 10 * decimal ds + d"
  by (simp add: decimal_def)

lemma decimal_nat_digits: "decimal (map digit_val (nat_digits n)) = n"
proof (induction n rule: nat_digits.induct)
  case (1 n)
  show ?case
  proof (cases "n < 10")
    case True
    then show ?thesis
      by (subst nat_digits.simps) (simp add: decimal_def digit_char_digit)
  next
    case False
    have "n mod 10 < 10" by simp
    with False 1 show ?thesis
      by (subst nat_digits.simps) (simp add: decimal_snoc digit_char_digit)
  qed
qed

lemma digit_plain:
  "is_digit c \<Longrightarrow> \<not> py_isspace c \<and> c \<noteq> CHR ''-'' \<and> c \<noteq> CHR ''+'' \<and> c \<noteq> CHR ''.''
     \<and> c \<noteq> CHR ''e'' \<and> c \<noteq> CHR ''E'' \<and> lower c = c \<and> c \<noteq> CHR ''i'' \<and> c \<noteq> CHR ''n''"
  by (auto simp: is_digit_def py_isspace_def lower_def)

lemma strip_plain: "s \<noteq> [] \<Longrightarrow> \<not> py_isspace (hd s) \<Longrightarrow> \<not> py_isspace (last s) \<Longrightarrow> strip s = s"
proof -
  assume ne: "s \<noteq> []" and h: "\<not> py_isspace (hd s)" and l: "\<not> py_isspace (last s)"
  from ne h have a: "dropWhile py_isspace s = s" by (cases s) simp_all
  from ne l have "dropWhile py_isspace (rev s) = rev s"
    by (cases s rule: rev_cases) simp_all
  with a show ?thesis by (simp add: strip_def)
qed

lemma strip_digits:
  assumes "cs \<noteq> []" and "\<forall>c \<in> set cs. is_digit c"
  shows "strip cs = cs" and "strip (CHR ''-'' # cs) = CHR ''-'' # cs"
    and "unsign cs = (False, cs)"
proof -
  from assms have h: "is_digit (hd cs)" and l: "is_digit (last cs)" by simp_all
  show "strip cs = cs"
    using assms(1) digit_plain[OF h] digit_plain[OF l] by (simp add: strip_plain)
  have "\<not> py_isspace (CHR ''-'')" by (simp add: py_isspace_def)
  then show "strip (CHR ''-'' # cs) = CHR ''-'' # cs"
    using assms(1) digit_plain[OF l] by (simp add: strip_plain)
  show "unsign cs = (False, cs)"
    using assms(1) digit_plain[OF h] by (cases cs) (simp_all add: unsign_def)
qed

lemma floatnumber_digits:
  assumes "cs \<noteq> []" and "\<forall>c \<in> set cs. is_digit c"
  shows "floatnumber cs = Some (real (decimal (map digit_val cs)))"
proof -
  have e: "takeWhile (\<lambda>c. c \<noteq> CHR ''e'' \<and> c \<noteq> CHR ''E'') cs = cs"
    using assms(2) digit_plain by (simp add: takeWhile_eq_all_conv)
  have e': "dropWhile (\<lambda>c. c \<noteq> CHR ''e'' \<and> c \<noteq> CHR ''E'') cs = []"
    using assms(2) digit_plain by (simp add: dropWhile_eq_Nil_conv)
  have d: "takeWhile (\<lambda>c. c \<noteq> CHR ''.'') cs = cs"
    using assms(2) digit_plain by (simp add: takeWhile_eq_all_conv)
  have d': "dropWhile (\<lambda>c. c \<noteq> CHR ''.'') cs = []"
    using assms(2) digit_plain by (simp add: dropWhile_eq_Nil_conv)
  have "mantissa cs = Some (map digit_val cs, [])"
    by (simp add: mantissa_def d d' digitpart_all[OF assms])
  then show ?thesis
    by (simp add: floatnumber_def e e' decimal_def)
qed

lemma not_a_word:
  assumes "cs \<noteq> []" and "\<forall>c \<in> set cs. is_digit c"
  shows "map lower cs \<noteq> ''inf'' \<and> map lower cs \<noteq> ''infinity'' \<and> map lower cs \<noteq> ''nan''"
proof -
  from assms obtain c r where cs: "cs = c # r" and c: "is_digit c" by (cases cs) auto
  from digit_plain[OF c] show ?thesis by (auto simp: cs)
qed

lemma py_float_digits:
  assumes "cs \<noteq> []" and "\<forall>c \<in> set cs. is_digit c"
  shows "py_float cs = Inr (round_double (real (decimal (map digit_val cs))))"
    and "py_float (CHR ''-'' # cs) = Inr (round_double (- real (decimal (map digit_val cs))))"
proof -
  show "py_float cs = Inr (round_double (real (decimal (map digit_val cs))))"
    using not_a_word[OF assms]
    by (simp add: py_float_def strip_digits[OF assms] floatnumber_digits[OF assms])
  show "py_float (CHR ''-'' # cs) = Inr (round_double (- real (decimal (map digit_val cs))))"
    using not_a_word[OF assms]
    by (simp add: py_float_def strip_digits(2)[OF assms] unsign_def floatnumber_digits[OF assms])
qed

lemma py_float_str_int: "py_float (py_str_int n) = Inr (round_double (of_int n))"
proof (cases "n < 0")
  case True
  then show ?thesis
    using py_float_digits(2)[OF nat_digits_nonempty, of "nat (- n)"] nat_digits_digits
    by (simp add: py_str_int_def decimal_nat_digits)
next
  case False
  then show ?thesis
    using py_float_digits(1)[OF nat_digits_nonempty, of "nat n"] nat_digits_digits
    by (simp add: py_str_int_def decimal_nat_digits)
qed

lemma py_int_str_int: "py_int (py_str_int n) = Inr n"
proof (cases "n < 0")
  case True
  have d: "\<forall>c \<in> set (nat_digits (nat (- n))). is_digit c" using nat_digits_digits by blast
  from True show ?thesis
    by (simp add: py_int_def py_str_int_def strip_digits(2)[OF nat_digits_nonempty d] unsign_def
          digitpart_all[OF nat_digits_nonempty d] decimal_nat_digits)
next
  case False
  have d: "\<forall>c \<in> set (nat_digits (nat n)). is_digit c" using nat_digits_digits by blast
  from False show ?thesis
    by (simp add: py_int_def py_str_int_def strip_digits(1,3)[OF nat_digits_nonempty d]
          digitpart_all[OF nat_digits_nonempty d] decimal_nat_digits)
qed

section \<open>The configuration\<close>

lemma map_of_update:
  "map_of (map (\<lambda>(k, old). if k = key then (k, v) else (k, old)) rows) key
     = (if map_of rows key = None then None else Some v)"
  by (induction rows) auto

lemma get_config_set_config:
  "map_of (config s) key \<noteq> None
   \<Longrightarrow> get_config (set_config key v s) key
       = (case py_float v of Inl err \<Rightarrow> Inl err | Inr f \<Rightarrow> Inr (Some f))"
  by (auto simp: get_config_def set_config_def map_of_update)

lemma map_of_insert_or_ignore:
  "map_of (insert_or_ignore k v rows) k'
     = (case map_of rows k' of Some x \<Rightarrow> Some x | None \<Rightarrow> if k' = k then Some v else None)"
  by (auto simp: insert_or_ignore_def map_add_def split: option.splits)

lemma init_db_keys:
  "map_of (config (init_db s)) ''RUN_THRESHOLD_PERCENT'' \<noteq> None"
  "map_of (config (init_db s)) ''RUN_CONSECUTIVE_PERIODS'' \<noteq> None"
  by (simp_all add: init_db_def map_of_insert_or_ignore split: option.splits)

lemma init_db_defaults:
  "map_of (config s) ''RUN_THRESHOLD_PERCENT'' = None
   \<Longrightarrow> get_config (init_db s) ''RUN_THRESHOLD_PERCENT'' = Inr (Some (Finite 10))"
  "map_of (config s) ''RUN_CONSECUTIVE_PERIODS'' = None
   \<Longrightarrow> get_config (init_db s) ''RUN_CONSECUTIVE_PERIODS'' = Inr (Some (Finite 5))"
  by (simp_all add: init_db_def map_of_insert_or_ignore get_config_def py_float_eval)

text \<open>
  C3. Let \<open>key\<close> be one of the two recognized keys, in a database that \<open>init_db\<close> has
  opened. After \<open>set_config key v\<close>, \<open>get_config key\<close> is \<open>v\<close> as a float, \<open>float(v)\<close>: the
  binary64 number nearest to the number that the text \<open>v\<close> denotes (or the ValueError of
  \<open>float\<close> for a text that denotes none). For the text \<open>str(n)\<close> of an integer \<open>n\<close> it is the
  float nearest to \<open>n\<close>, which is \<open>n\<close> itself up to \<open>2^53\<close>. In a database in which the key
  had no row, \<open>init_db\<close> writes the default, and \<open>get_config\<close> returns 10 for
  \<open>RUN_THRESHOLD_PERCENT\<close> and 5 for \<open>RUN_CONSECUTIVE_PERIODS\<close>.
\<close>

theorem config_round_trip:
  assumes "key = ''RUN_THRESHOLD_PERCENT'' \<or> key = ''RUN_CONSECUTIVE_PERIODS''"
  shows "get_config (set_config key v (init_db s)) key
           = (case py_float v of Inl err \<Rightarrow> Inl err | Inr f \<Rightarrow> Inr (Some f))
       \<and> get_config (set_config key (py_str_int n) (init_db s)) key
           = Inr (Some (round_double (of_int n)))
       \<and> (\<bar>n\<bar> \<le> 2 ^ 53 \<longrightarrow>
            get_config (set_config key (py_str_int n) (init_db s)) key
              = Inr (Some (Finite (of_int n))))
       \<and> (map_of (config s) key = None \<longrightarrow>
            get_config (init_db s) key
              = Inr (Some (Finite (if key = ''RUN_THRESHOLD_PERCENT'' then 10 else 5))))"
proof -
  from assms init_db_keys[of s] have k: "map_of (config (init_db s)) key \<noteq> None" by auto
  from assms init_db_defaults[of s]
  have "map_of (config s) key = None \<longrightarrow>
            get_config (init_db s) key
              = Inr (Some (Finite (if key = ''RUN_THRESHOLD_PERCENT'' then 10 else 5)))"
    by auto
  then show ?thesis
    by (simp add: get_config_set_config[OF k] py_float_str_int round_double_int)
qed

lemma round_double_beyond: "round_double 9007199254740993 = Finite 9007199254740992"
  by (simp add: float_eval)

theorem config_round_trip_witness:
  "get_config (set_config ''RUN_CONSECUTIVE_PERIODS'' ''7.5'' (init_db empty_db))
      ''RUN_CONSECUTIVE_PERIODS'' = Inr (Some (Finite 7.5))
   \<and> get_config (set_config ''RUN_CONSECUTIVE_PERIODS'' (py_str_int 7) (init_db empty_db))
      ''RUN_CONSECUTIVE_PERIODS'' = Inr (Some (Finite 7))
   \<and> get_config (set_config ''RUN_CONSECUTIVE_PERIODS'' (py_str_int 9007199254740993)
        (init_db empty_db)) ''RUN_CONSECUTIVE_PERIODS'' = Inr (Some (Finite 9007199254740992))
   \<and> map_of (config empty_db) ''RUN_CONSECUTIVE_PERIODS'' = None
   \<and> get_config (init_db empty_db) ''RUN_CONSECUTIVE_PERIODS'' = Inr (Some (Finite 5))"
proof -
  have "py_float ''7.5'' = Inr (Finite 7.5)" by (simp add: py_float_eval)
  moreover have "map_of (config empty_db) ''RUN_CONSECUTIVE_PERIODS'' = None"
    by (simp add: empty_db_def)
  moreover have "\<bar>7 :: int\<bar> \<le> 2 ^ 53" by simp
  ultimately show ?thesis
    using config_round_trip[of "''RUN_CONSECUTIVE_PERIODS''" "''7.5''" empty_db 7]
          config_round_trip[of "''RUN_CONSECUTIVE_PERIODS''" "''7.5''" empty_db 9007199254740993]
          round_double_beyond
    by auto
qed

text \<open>
  C4, as the code has it. The branch rejects every text that \<open>int\<close> does not parse and
  every integer that is 0 or negative, and then leaves the store as it is; it accepts
  every integer from 1 on. So a store whose \<open>RUN_CONSECUTIVE_PERIODS\<close> is a whole number
  of at least 1, as after \<open>init_db\<close> on a new database, stays so.
\<close>

theorem set_run_periods_rejects_nonpositive:
  "(py_int (strip text) = Inl err \<longrightarrow> set_run_periods text s = (s, InvalidValue))
   \<and> (py_int (strip text) = Inr p \<and> p \<le> 0 \<longrightarrow> set_run_periods text s = (s, InvalidValue))
   \<and> (py_int (strip text) = Inr p \<and> 1 \<le> p \<longrightarrow>
        set_run_periods text s
          = (set_config ''RUN_CONSECUTIVE_PERIODS'' (py_str_int p) s, PeriodsSet p))
   \<and> (periods_at_least 1 s \<longrightarrow> periods_at_least 1 (fst (set_run_periods text s)))
   \<and> periods_at_least 1 (init_db empty_db)"
proof -
  have inv: "periods_at_least 1 (fst (set_run_periods text s))" if ok: "periods_at_least 1 s"
  proof (cases "py_int (strip text)")
    case (Inl e)
    with ok show ?thesis by (simp add: set_run_periods_def)
  next
    case (Inr q)
    show ?thesis
    proof (cases "q \<le> 0")
      case True
      with Inr ok show ?thesis by (simp add: set_run_periods_def)
    next
      case False
      from ok have row: "map_of (config s) ''RUN_CONSECUTIVE_PERIODS'' \<noteq> None"
        by (auto simp: periods_at_least_def split: option.splits)
      then have stored: "map_of (config (set_config ''RUN_CONSECUTIVE_PERIODS'' (py_str_int q) s))
                        ''RUN_CONSECUTIVE_PERIODS'' = Some (py_str_int q)"
        by (auto simp: set_config_def map_of_update)
      have rd: "get_config (set_config ''RUN_CONSECUTIVE_PERIODS'' (py_str_int q) s)
                  ''RUN_CONSECUTIVE_PERIODS'' = Inr (Some (round_double (of_int q)))"
        by (simp add: get_config_set_config[OF row] py_float_str_int)
      from Inr False show ?thesis
        by (simp add: set_run_periods_def periods_at_least_def stored rd py_int_str_int)
    qed
  qed
  have "periods_at_least 1 (init_db empty_db)"
    by (simp add: periods_at_least_def init_db_def insert_or_ignore_def empty_db_def
          py_int_def get_config_def py_float_eval)
  with inv show ?thesis
    by (auto simp: set_run_periods_def)
qed

theorem set_run_periods_rejects_nonpositive_witness:
  "py_int (strip ''0'') = Inr 0 \<and> set_run_periods ''0'' (init_db empty_db) = (init_db empty_db, InvalidValue)
   \<and> py_int (strip ''x'') = Inl ValueError
   \<and> set_run_periods ''x'' (init_db empty_db) = (init_db empty_db, InvalidValue)
   \<and> py_int (strip ''7'') = Inr 7
   \<and> periods_at_least 1 (fst (set_run_periods ''7'' (init_db empty_db)))"
proof -
  have a: "py_int (strip ''0'') = Inr 0" "py_int (strip ''x'') = Inl ValueError"
          "py_int (strip ''7'') = Inr 7"
    by (simp_all add: py_int_def py_float_eval)
  from set_run_periods_rejects_nonpositive[of "''0''" ValueError "init_db empty_db" 0]
       set_run_periods_rejects_nonpositive[of "''x''" ValueError "init_db empty_db" 0]
       set_run_periods_rejects_nonpositive[of "''7''" ValueError "init_db empty_db" 7]
       a
  show ?thesis by auto
qed

text \<open>
  C4, as stated, fails: the text \<open>1\<close> is accepted, and the store then holds 1 period,
  which is not at least 2.
\<close>

theorem set_run_periods_counterexample:
  "set_run_periods ''1'' (init_db empty_db)
     = (set_config ''RUN_CONSECUTIVE_PERIODS'' ''1'' (init_db empty_db), PeriodsSet 1)
   \<and> get_config (fst (set_run_periods ''1'' (init_db empty_db))) ''RUN_CONSECUTIVE_PERIODS''
       = Inr (Some (Finite 1))
   \<and> \<not> periods_at_least 2 (fst (set_run_periods ''1'' (init_db empty_db)))"
proof -
  have p: "py_int (strip ''1'') = Inr 1" by (simp add: py_int_def py_float_eval)
  have p': "py_int ''1'' = Inr 1" by (simp add: py_int_def py_float_eval)
  have "char_of (of_char (CHR ''1'') :: nat) = CHR ''1''" by (rule char_of_char)
  then have "digit_char 1 = CHR ''1''" by (simp add: digit_char_def)
  then have s: "py_str_int 1 = ''1''"
    by (simp add: py_str_int_def) (subst nat_digits.simps, simp)
  have r: "set_run_periods ''1'' (init_db empty_db)
     = (set_config ''RUN_CONSECUTIVE_PERIODS'' ''1'' (init_db empty_db), PeriodsSet 1)"
    by (simp add: set_run_periods_def p s)
  have f: "py_float ''1'' = Inr (Finite 1)" by (simp add: py_float_eval)
  have g: "get_config (fst (set_run_periods ''1'' (init_db empty_db))) ''RUN_CONSECUTIVE_PERIODS''
       = Inr (Some (Finite 1))"
    by (simp add: r get_config_set_config[OF init_db_keys(2)] f)
  have "map_of (config (set_config ''RUN_CONSECUTIVE_PERIODS'' ''1'' (init_db empty_db)))
          ''RUN_CONSECUTIVE_PERIODS'' = Some ''1''"
    using init_db_keys(2)[of empty_db] by (auto simp: set_config_def map_of_update)
  with r g p' show ?thesis by (simp add: periods_at_least_def)
qed

end
